theory Spec2Isabelle
  imports Complex_Main "HOL-Library.Word" "HOL-Library.Code_Target_Numeral"
    "HOL-Library.Log_Nat"
begin

unbundle bit_operations_syntax

section \<open>Buffers and the errors of the decoder\<close>

text \<open>
  A Node \<open>Buffer\<close> is a list of bytes. Every \<open>throw\<close> of \<open>src/codec8.js\<close> is a
  constructor of \<open>error\<close>; \<open>decodeCodec8\<close> catches the exception and returns
  \<open>{ error: error.message }\<close>, which is the \<open>Inl\<close> side of the result.
  \<^item> \<open>BufferOverflowRead n offset len\<close>: the message of \<open>readBytes\<close>;
  \<^item> \<open>BufferOverflow offset\<close>: the message of the fixed-width readers;
  \<^item> \<open>UnsupportedCodec id\<close>: the codec byte is neither 0x08 nor 0x8e;
  \<^item> \<open>InvalidTimeValue\<close>: the RangeError of \<open>Date.prototype.toISOString\<close> on a
    time value beyond 8.64e15 ms;
  \<^item> \<open>ERR_OUT_OF_RANGE\<close>: the RangeError Node's own \<open>Buffer.readUInt8\<close>,
    \<open>readUInt16BE\<close>, \<open>readUInt32BE\<close> and \<open>readInt32BE\<close> raise when the
    bytes asked for are not all inside the buffer.
\<close>

type_synonym byte = "8 word"
type_synonym buffer = "byte list"

datatype error =
    BufferOverflowRead nat nat nat
  | BufferOverflow nat
  | UnsupportedCodec nat
  | InvalidTimeValue
  | ERR_OUT_OF_RANGE

text \<open>Big-endian value of a byte sequence.\<close>

definition be_value :: "buffer \<Rightarrow> nat" where
  "be_value bs = foldl (\<lambda>acc b. acc * 256 + unat b) 0 bs"

text \<open>\<open>buf.slice(start, end)\<close> clamps to the buffer and never raises.\<close>

definition slice :: "buffer \<Rightarrow> nat \<Rightarrow> nat \<Rightarrow> buffer" where
  "slice d start end = take (end - start) (drop start d)"

text \<open>Node's primitive readers on a buffer: they raise when the read leaves the buffer.\<close>

definition buf_readUIntBE :: "nat \<Rightarrow> buffer \<Rightarrow> nat \<Rightarrow> error + nat" where
  "buf_readUIntBE n d off =
     (if off + n \<le> length d then Inr (be_value (slice d off (off + n)))
      else Inl ERR_OUT_OF_RANGE)"

definition buf_readUInt8 :: "buffer \<Rightarrow> nat \<Rightarrow> error + nat" where
  "buf_readUInt8 d off =
     (if off + 1 \<le> length d then Inr (unat (d ! off)) else Inl ERR_OUT_OF_RANGE)"

definition buf_readUInt16BE :: "buffer \<Rightarrow> nat \<Rightarrow> error + nat" where
  "buf_readUInt16BE = buf_readUIntBE 2"

definition buf_readUInt32BE :: "buffer \<Rightarrow> nat \<Rightarrow> error + nat" where
  "buf_readUInt32BE = buf_readUIntBE 4"

definition buf_readInt32BE :: "buffer \<Rightarrow> nat \<Rightarrow> error + int" where
  "buf_readInt32BE d off =
     (case buf_readUIntBE 4 d off of
        Inl e \<Rightarrow> Inl e
      | Inr v \<Rightarrow> Inr (if v \<ge> 2 ^ 31 then int v - 2 ^ 32 else int v))"

section \<open>Strings produced by the decoder\<close>

text \<open>\<open>n.toString()\<close> for a non-negative integer: its decimal digits.\<close>

fun dec_string :: "nat \<Rightarrow> string" where
  "dec_string n =
     (if n < 10 then [char_of (48 + n)]
      else dec_string (n div 10) @ [char_of (48 + n mod 10)])"

declare dec_string.simps [simp del]

text \<open>\<open>raw.toString('hex')\<close>: two lower-case hexadecimal digits for each byte.\<close>

definition hex_digit :: "nat \<Rightarrow> char" where
  "hex_digit n = (if n < 10 then char_of (48 + n) else char_of (87 + n))"

definition to_hex :: "buffer \<Rightarrow> string" where
  "to_hex bs = concat (map (\<lambda>b. [hex_digit (unat b div 16), hex_digit (unat b mod 16)]) bs)"

text \<open>
  \<open>raw.toString('ascii')\<close>: Node clears the highest bit of every byte and decodes the
  rest as one character each.
\<close>

definition to_ascii :: "buffer \<Rightarrow> string" where
  "to_ascii bs = map (\<lambda>b. char_of (unat b mod 128)) bs"

text \<open>\<open>s.replace(/\0/g, '')\<close>: every NUL character is removed, not only trailing ones.\<close>

definition strip_nul :: "string \<Rightarrow> string" where
  "strip_nul s = filter (\<lambda>c. c \<noteq> char_of (0::nat)) s"

section \<open>The decoder's readers\<close>

text \<open>
  \<open>Codec8Decoder\<close> holds the buffer \<open>data\<close> and the mutable \<open>offset\<close>. A method
  that reads is a function of the buffer and the offset before, returning the error it
  throws or its value and the offset after.
\<close>

type_synonym 'a reader = "buffer \<Rightarrow> nat \<Rightarrow> error + ('a \<times> nat)"

definition return_r :: "'a \<Rightarrow> 'a reader" where
  "return_r v = (\<lambda>d off. Inr (v, off))"

definition throw_r :: "error \<Rightarrow> 'a reader" where
  "throw_r e = (\<lambda>d off. Inl e)"

definition bind_r :: "'a reader \<Rightarrow> ('a \<Rightarrow> 'b reader) \<Rightarrow> 'b reader" where
  "bind_r m f = (\<lambda>d off. case m d off of Inl e \<Rightarrow> Inl e | Inr (v, off') \<Rightarrow> f v d off')"

text \<open>A computation on an already sliced buffer, which may raise but moves no offset.\<close>

definition lift_r :: "error + 'a \<Rightarrow> 'a reader" where
  "lift_r x = (\<lambda>d off. case x of Inl e \<Rightarrow> Inl e | Inr v \<Rightarrow> Inr (v, off))"

definition readBytes :: "nat \<Rightarrow> buffer reader" where
  "readBytes n = (\<lambda>d off.
     if off + n > length d then Inl (BufferOverflowRead n off (length d))
     else Inr (slice d off (off + n), off + n))"

definition readUInt8 :: "nat reader" where
  "readUInt8 = (\<lambda>d off.
     if off + 1 > length d then Inl (BufferOverflow off)
     else case buf_readUInt8 d off of Inl e \<Rightarrow> Inl e | Inr v \<Rightarrow> Inr (v, off + 1))"

definition readUInt16 :: "nat reader" where
  "readUInt16 = (\<lambda>d off.
     if off + 2 > length d then Inl (BufferOverflow off)
     else case buf_readUInt16BE d off of Inl e \<Rightarrow> Inl e | Inr v \<Rightarrow> Inr (v, off + 2))"

definition readUInt32 :: "nat reader" where
  "readUInt32 = (\<lambda>d off.
     if off + 4 > length d then Inl (BufferOverflow off)
     else case buf_readUInt32BE d off of Inl e \<Rightarrow> Inl e | Inr v \<Rightarrow> Inr (v, off + 4))"

definition readInt32 :: "int reader" where
  "readInt32 = (\<lambda>d off.
     if off + 4 > length d then Inl (BufferOverflow off)
     else case buf_readInt32BE d off of Inl e \<Rightarrow> Inl e | Inr v \<Rightarrow> Inr (v, off + 4))"

definition readUInt64 :: "nat reader" where
  "readUInt64 = (\<lambda>d off.
     if off + 8 > length d then Inl (BufferOverflow off)
     else case buf_readUInt32BE d off of
        Inl e \<Rightarrow> Inl e
      | Inr high \<Rightarrow>
         (case buf_readUInt32BE d (off + 4) of
            Inl e \<Rightarrow> Inl e
          | Inr low \<Rightarrow> Inr (high * 4294967296 + low, off + 8)))"

section \<open>IO elements\<close>

text \<open>
  The fields of an element carry the prefix \<open>elem_\<close> (\<open>id\<close> and \<open>size\<close> are
  constants of HOL). The \<open>value\<close> of an element is a JavaScript number for the 1, 2 and
  4 byte groups and a string for the 8 byte group (a BigInt printed in decimal) and for
  the NX group.
\<close>

datatype io_value = NumVal nat | StrVal string

record io_element =
  elem_id :: nat
  elem_size :: nat
  elem_value :: io_value
  elem_raw :: buffer
  elem_name :: string

record io_data =
  eventIoId :: nat
  totalCount :: nat
  elements :: "io_element list"

definition ioNames :: "(nat \<times> string) list" where
  "ioNames =
    [(1, ''Digital Input 1''), (2, ''Digital Input 2''), (3, ''Digital Input 3''),
     (4, ''Digital Input 4''), (5, ''Digital Output 1''), (6, ''Digital Output 2''),
     (9, ''Analog Input 1''), (10, ''Analog Input 2''), (11, ''ICCID''),
     (12, ''Fuel Used GPS''), (13, ''Fuel Rate GPS''), (14, ''Average Fuel Use''),
     (15, ''Eco Score''), (16, ''Total Odometer''), (17, ''Axis X''), (18, ''Axis Y''),
     (19, ''Axis Z''), (21, ''GSM Signal''), (24, ''Speed''), (25, ''External Voltage''),
     (26, ''Internal Battery Voltage''), (30, ''Number of DTC''),
     (66, ''External Voltage (mV)''), (67, ''Battery Voltage (mV)''),
     (68, ''Battery Current (mA)''), (69, ''GNSS Status''), (80, ''Data Mode''),
     (113, ''Battery Level %''), (175, ''Auto Geofence''), (181, ''GNSS PDOP''),
     (182, ''GNSS HDOP''), (199, ''Trip Odometer''), (200, ''Sleep Mode''),
     (205, ''Cell ID''), (206, ''Area Code''), (236, ''Alarm''), (237, ''Network Type''),
     (238, ''Operator Code''), (239, ''Ignition''), (240, ''Movement''),
     (241, ''GSM Operator''), (243, ''Green Driving Type''), (246, ''Towing Detection''),
     (247, ''Crash Detection''), (249, ''Jamming Detection''), (250, ''Trip''),
     (251, ''Idling''), (252, ''Ignition''), (253, ''Green Driving Value''),
     (254, ''Over Speeding''), (255, ''Geofence Zone''), (256, ''VIN''), (281, ''DOUT 3''),
     (303, ''Instant Movement''), (385, ''Beacon''), (389, ''OBD Total Mileage''),
     (390, ''OBD Fuel Level'')]"

definition getIOName :: "nat \<Rightarrow> string" where
  "getIOName i = (case map_of ioNames i of Some n \<Rightarrow> n | None \<Rightarrow> ''IO_'' @ dec_string i)"

text \<open>
  The value read from the sliced bytes \<open>raw\<close> of a fixed-width element:
  \<open>raw.readUInt8(0)\<close>, \<open>raw.readUInt16BE(0)\<close>, \<open>raw.readUInt32BE(0)\<close>, and for
  8 bytes the two halves \<open>raw.readUInt32BE(0)\<close> and \<open>raw.readUInt32BE(4)\<close>.
\<close>

definition fixed_value :: "nat \<Rightarrow> buffer \<Rightarrow> error + io_value" where
  "fixed_value sz r =
     (if sz = 1 then map_sum id NumVal (buf_readUInt8 r 0)
      else if sz = 2 then map_sum id NumVal (buf_readUInt16BE r 0)
      else if sz = 4 then map_sum id NumVal (buf_readUInt32BE r 0)
      else case buf_readUInt32BE r 0 of
             Inl e \<Rightarrow> Inl e
           | Inr high \<Rightarrow>
              (case buf_readUInt32BE r 4 of
                 Inl e \<Rightarrow> Inl e
               | Inr low \<Rightarrow> Inr (StrVal (dec_string (high * 4294967296 + low)))))"

text \<open>
  The body of each of the four fixed-width loops: read the id (one byte in Codec 8, two
  in Codec 8 Extended, hence the parameter \<open>readId\<close>), slice \<open>sz\<close> bytes, push the
  element.
\<close>

definition fixed_element :: "nat reader \<Rightarrow> nat \<Rightarrow> io_element reader" where
  "fixed_element readId sz =
     bind_r readId (\<lambda>i.
     bind_r (readBytes sz) (\<lambda>r.
     bind_r (lift_r (fixed_value sz r)) (\<lambda>v.
     return_r \<lparr>elem_id = i, elem_size = sz, elem_value = v, elem_raw = r, elem_name = getIOName i\<rparr>)))"

text \<open>The body of the NX loop of Codec 8 Extended.\<close>

definition nx_element :: "io_element reader" where
  "nx_element =
     bind_r readUInt16 (\<lambda>i.
     bind_r readUInt16 (\<lambda>len.
     bind_r (readBytes len) (\<lambda>r.
     return_r \<lparr>elem_id = i, elem_size = len,
       elem_value =
         StrVal (if i = 256 \<or> i = 281 \<or> i = 385 then strip_nul (to_ascii r) else to_hex r),
       elem_raw = r, elem_name = getIOName i\<rparr>)))"

text \<open>\<open>for (let i = 0; i < n; i++) { ... push ... }\<close>: \<open>n\<close> runs of the body, in order.\<close>

primrec repeat_r :: "nat \<Rightarrow> 'a reader \<Rightarrow> 'a list reader" where
  "repeat_r 0 body = return_r []"
| "repeat_r (Suc n) body =
     bind_r body (\<lambda>x. bind_r (repeat_r n body) (\<lambda>xs. return_r (x # xs)))"

definition decodeIOElementStandard :: "io_data reader" where
  "decodeIOElementStandard =
     bind_r readUInt8 (\<lambda>ev.
     bind_r readUInt8 (\<lambda>total.
     bind_r readUInt8 (\<lambda>n1. bind_r (repeat_r n1 (fixed_element readUInt8 1)) (\<lambda>g1.
     bind_r readUInt8 (\<lambda>n2. bind_r (repeat_r n2 (fixed_element readUInt8 2)) (\<lambda>g2.
     bind_r readUInt8 (\<lambda>n4. bind_r (repeat_r n4 (fixed_element readUInt8 4)) (\<lambda>g4.
     bind_r readUInt8 (\<lambda>n8. bind_r (repeat_r n8 (fixed_element readUInt8 8)) (\<lambda>g8.
     return_r \<lparr>eventIoId = ev, totalCount = total, elements = g1 @ g2 @ g4 @ g8\<rparr>))))))))))"

definition decodeIOElementExtended :: "io_data reader" where
  "decodeIOElementExtended =
     bind_r readUInt16 (\<lambda>ev.
     bind_r readUInt16 (\<lambda>total.
     bind_r readUInt16 (\<lambda>n1. bind_r (repeat_r n1 (fixed_element readUInt16 1)) (\<lambda>g1.
     bind_r readUInt16 (\<lambda>n2. bind_r (repeat_r n2 (fixed_element readUInt16 2)) (\<lambda>g2.
     bind_r readUInt16 (\<lambda>n4. bind_r (repeat_r n4 (fixed_element readUInt16 4)) (\<lambda>g4.
     bind_r readUInt16 (\<lambda>n8. bind_r (repeat_r n8 (fixed_element readUInt16 8)) (\<lambda>g8.
     bind_r readUInt16 (\<lambda>nx. bind_r (repeat_r nx nx_element) (\<lambda>gx.
     return_r \<lparr>eventIoId = ev, totalCount = total,
               elements = g1 @ g2 @ g4 @ g8 @ gx\<rparr>))))))))))))"

section \<open>JavaScript numbers\<close>

text \<open>
  JavaScript numbers are IEEE 754 doubles. A finite double is a rational number and is
  modelled by that number. An operation whose exact result need not be a double gives
  the double nearest to that result, a tie going to the even significand:
  \<open>round_double\<close> is this rounding. \<open>binade x\<close> is the exponent \<open>e\<close> with
  \<open>2 ^ e \<le> \<bar>x\<bar> < 2 ^ (e + 1)\<close>. A double has 53 significant bits, so the doubles
  around \<open>x\<close> are the multiples of \<open>2 ^ (e - 52)\<close>, and the multiples of \<open>2 ^ - 1074\<close>
  for the subnormal numbers below \<open>2 ^ - 1022\<close>. A result of magnitude \<open>2 ^ 1024\<close> or
  more, where a double is an infinity, is outside this model.
\<close>

type_synonym rounding = "rat \<Rightarrow> rat"

definition round_half_even :: "rat \<Rightarrow> int" where
  "round_half_even x =
     (let f = \<lfloor>x\<rfloor>; d = x - of_int f
      in if d < 1 / 2 then f else if 1 / 2 < d then f + 1 else if even f then f else f + 1)"

definition binade :: "rat \<Rightarrow> int" where
  "binade x =
     (if 1 \<le> \<bar>x\<bar> then int (floorlog 2 (nat \<lfloor>\<bar>x\<bar>\<rfloor>)) - 1
      else - int (floorlog 2 (nat (\<lceil>1 / \<bar>x\<bar>\<rceil> - 1))))"

definition round_double :: rounding where
  "round_double x =
     (if x = 0 then 0
      else let e = max (binade x) (- 1022); ulp = 2 powi (e - 52)
           in of_int (round_half_even (x / ulp)) * ulp)"

section \<open>AVL records and the packet\<close>

text \<open>
  \<open>timestamp\<close> is the time value in milliseconds that the ISO-8601 string
  \<open>new Date(Number(timestamp)).toISOString()\<close> denotes; the string is a function of it.
  \<open>toISOString\<close> raises on a time value above 8.64e15, after the IO element has been
  read. Longitude and latitude are the doubles that the division of the signed readings
  by 10000000 gives.
\<close>

record gps_element =
  longitude :: rat
  latitude :: rat
  altitude :: nat
  angle :: nat
  satellites :: nat
  speed :: nat

record avl_record =
  timestamp :: nat
  timestampRaw :: string
  priority :: nat
  gps :: gps_element
  io :: io_data

definition decodeAVLRecord :: "bool \<Rightarrow> avl_record reader" where
  "decodeAVLRecord isExtended =
     bind_r readUInt64 (\<lambda>ts.
     bind_r readUInt8 (\<lambda>prio.
     bind_r readInt32 (\<lambda>lon.
     bind_r readInt32 (\<lambda>lat.
     bind_r readUInt16 (\<lambda>alt.
     bind_r readUInt16 (\<lambda>ang.
     bind_r readUInt8 (\<lambda>sat.
     bind_r readUInt16 (\<lambda>spd.
     bind_r (if isExtended then decodeIOElementExtended else decodeIOElementStandard) (\<lambda>ioe.
     if ts > 8640000000000000 then throw_r InvalidTimeValue
     else return_r
       \<lparr>timestamp = ts, timestampRaw = dec_string ts, priority = prio,
        gps = \<lparr>longitude = round_double (of_int lon / 10000000),
               latitude = round_double (of_int lat / 10000000),
               altitude = alt, angle = ang, satellites = sat, speed = spd\<rparr>,
        io = ioe\<rparr>)))))))))"

record decoded_packet =
  preamble :: nat
  dataFieldLength :: nat
  codecId :: nat
  numberOfData1 :: nat
  avlRecords :: "avl_record list"
  numberOfData2 :: nat
  crc :: nat

text \<open>
  The rest of \<open>decode\<close> once the codec id has fixed \<open>isExtended\<close>: the records, the
  second count and the CRC field. Neither the count nor the CRC is compared with anything.
\<close>

definition decode_rest :: "nat \<Rightarrow> nat \<Rightarrow> nat \<Rightarrow> nat \<Rightarrow> bool \<Rightarrow> decoded_packet reader" where
  "decode_rest pre len cid n1 isExtended =
     bind_r (repeat_r n1 (decodeAVLRecord isExtended)) (\<lambda>recs.
     bind_r readUInt8 (\<lambda>n2.
     bind_r readUInt32 (\<lambda>c.
     return_r \<lparr>preamble = pre, dataFieldLength = len, codecId = cid, numberOfData1 = n1,
               avlRecords = recs, numberOfData2 = n2, crc = c\<rparr>)))"

definition decode :: "decoded_packet reader" where
  "decode =
     bind_r readUInt32 (\<lambda>pre.
     bind_r readUInt32 (\<lambda>len.
     bind_r readUInt8 (\<lambda>cid.
     bind_r readUInt8 (\<lambda>n1.
     if cid = 8 then decode_rest pre len cid n1 False
     else if cid = 142 then decode_rest pre len cid n1 True
     else throw_r (UnsupportedCodec cid)))))"

definition decodeCodec8 :: "buffer \<Rightarrow> error + decoded_packet" where
  "decodeCodec8 buffer = (case decode buffer 0 of Inl e \<Rightarrow> Inl e | Inr (p, off) \<Rightarrow> Inr p)"

text \<open>
  \<open>parseIMEI\<close> returns the IMEI string or \<open>null\<close> (\<open>None\<close>). Its read of the length
  field is Node's \<open>buffer.readUInt16BE(0)\<close>, which would raise on a buffer shorter than
  two bytes; the guard before it is part of the function.
\<close>

definition parseIMEI :: "buffer \<Rightarrow> error + string option" where
  "parseIMEI buffer =
     (if length buffer < 2 then Inr None
      else case buf_readUInt16BE buffer 0 of
             Inl e \<Rightarrow> Inl e
           | Inr len \<Rightarrow>
               if len \<noteq> 15 then Inr None
               else if length buffer < 2 + len then Inr None
               else Inr (Some (to_ascii (slice buffer 2 (2 + len)))))"

section \<open>Stored records as the analyzer reads them\<close>

text \<open>
  A document of a \<open>records_*\<close> collection, with the fields that the trips handler
  and \<open>calculateDriverBehavior\<close> read (the \<open>api.js\<close> held in
  \<open>src/server/db.js\<close>, lines 454 to 928; \<open>src/server/api.js\<close> has the same trip
  loop without the driver behavior). \<open>rec_timestamp\<close> is \<open>new Date(r.timestamp).getTime()\<close>, the time in
  milliseconds that the stored ISO-8601 string denotes (equal strings are equal times);
  \<open>rec_gps\<close> is the \<open>gps\<close> sub-object. A field that is absent (\<open>undefined\<close>) is
  \<open>None\<close>; the fields present are JavaScript numbers with integer values, as the decoder
  produces them for the 1, 2 and 4 byte IO groups.
\<close>

record rec =
  rec_timestamp :: int
  rec_gps :: "gps_element option"
  ignition :: "int option"
  movement :: "int option"
  obdEngineRpm :: "int option"
  obdVehicleSpeed :: "int option"
  totalOdometer :: "int option"
  fuelUsedGps :: "int option"
  accelerometerX :: "int option"
  accelerometerY :: "int option"

text \<open>JavaScript truthiness of an optional number: present and not zero.\<close>

definition truthy :: "int option \<Rightarrow> bool" where
  "truthy v = (case v of None \<Rightarrow> False | Some n \<Rightarrow> n \<noteq> 0)"

text \<open>\<open>v || 0\<close> for an optional number.\<close>

definition or_zero :: "int option \<Rightarrow> int" where
  "or_zero v = (case v of None \<Rightarrow> 0 | Some n \<Rightarrow> n)"

text \<open>
  Sums, differences, comparisons and remainders of the integers that occur (time values,
  odometer and fuel readings, speeds, counts) are exact in doubles and are written as
  integer arithmetic. A quotient, a product or a sum whose exact result need not be a
  double gives the double nearest to that result. The definitions of the analyzer take
  this rounding as their parameter \<open>rnd\<close> and apply it to each such result, in the order
  in which the code evaluates them; a decimal literal such as \<open>3.6\<close> is
  \<open>rnd (36 / 10)\<close>. Nothing is assumed of \<open>rnd\<close>: what is proved of the analyzer holds
  for every rounding, and \<open>round_double\<close> is the rounding of the code. The only
  quotients left exact are the two of the driver score in STEP 4 of
  \<open>calculateDriverBehavior\<close>.
\<close>

text \<open>
  \<open>Math.round\<close>: the nearest integer, a half rounded towards plus infinity. It is exact
  on the value of a double.
\<close>

definition js_round :: "rat \<Rightarrow> int" where
  "js_round x = \<lfloor>x + 1 / 2\<rfloor>"

text \<open>\<open>Math.round(x * 10) / 10\<close> and \<open>Math.round(x / 100) / 10\<close> for a double \<open>x\<close>.\<close>

definition round_tenths :: "rounding \<Rightarrow> rat \<Rightarrow> rat" where
  "round_tenths rnd x = rnd (of_int (js_round (rnd (x * 10))) / 10)"

definition km_of_meters :: "rounding \<Rightarrow> rat \<Rightarrow> rat" where
  "km_of_meters rnd m = rnd (of_int (js_round (rnd (m / 100))) / 10)"

text \<open>\<open>r.obdVehicleSpeed || r.gps?.speed || 0\<close>.\<close>

definition speed_of :: "rec \<Rightarrow> int" where
  "speed_of r =
     (if truthy (obdVehicleSpeed r) then or_zero (obdVehicleSpeed r)
      else case rec_gps r of
             None \<Rightarrow> 0
           | Some g \<Rightarrow> if speed g \<noteq> 0 then int (speed g) else 0)"

text \<open>\<open>r.gps?.satellites > 0\<close>.\<close>

definition has_satellites :: "rec \<Rightarrow> bool" where
  "has_satellites r = (case rec_gps r of None \<Rightarrow> False | Some g \<Rightarrow> satellites g > 0)"

section \<open>Driver behavior\<close>

text \<open>
  \<open>toSigned16\<close> returns \<open>null\<close> for an absent value; in the arithmetic that follows
  \<open>null\<close> counts as 0 (\<open>or_zero\<close>).
\<close>

definition toSigned16 :: "int option \<Rightarrow> int option" where
  "toSigned16 val =
     (case val of None \<Rightarrow> None | Some v \<Rightarrow> Some (if v > 32767 then v - 65536 else v))"

text \<open>
  \<open>medianFilter\<close>: the first and the last value pass through, every value between them
  is replaced by the median of the window of three around it.
\<close>

fun median_windows :: "int list \<Rightarrow> int list" where
  "median_windows (a # b # c # rest) = (sort [a, b, c] ! 1) # median_windows (b # c # rest)"
| "median_windows vs = []"

definition medianFilter :: "int list \<Rightarrow> int list" where
  "medianFilter vs =
     (if length vs < 3 then vs else [hd vs] @ median_windows vs @ [last vs])"

text \<open>\<open>Array.prototype.findIndex\<close>; \<open>None\<close> is the result \<open>-1\<close>.\<close>

fun findIndex :: "('a \<Rightarrow> bool) \<Rightarrow> 'a list \<Rightarrow> nat option" where
  "findIndex P [] = None"
| "findIndex P (x # xs) = (if P x then Some 0 else map_option Suc (findIndex P xs))"

text \<open>
  The state of the event loop over \<open>tripRecords\<close> and its body, STEP 3 of
  \<open>calculateDriverBehavior\<close> (\<open>src/server/db.js\<close>, lines 547 to 620). The condition
  \<open>!lastBrakeTime || (currentTime - lastBrakeTime) > EVENT_COOLDOWN_MS\<close> holds when the
  last time is \<open>null\<close>, when it is the number 0, or when more than 2000 ms have passed.
\<close>

record ev_state =
  hardBraking :: nat
  hardAcceleration :: nat
  harshCornering :: nat
  idleSeconds :: rat
  ev_maxSpeed :: int
  ev_maxRpm :: int
  lastBrakeTime :: "int option"
  lastAccelTime :: "int option"
  lastCornerTime :: "int option"
  prevRecord :: "rec option"

definition ev_init :: ev_state where
  "ev_init =
     \<lparr>hardBraking = 0, hardAcceleration = 0, harshCornering = 0, idleSeconds = 0,
      ev_maxSpeed = 0, ev_maxRpm = 0, lastBrakeTime = None, lastAccelTime = None,
      lastCornerTime = None, prevRecord = None\<rparr>"

definition cooled_down :: "int option \<Rightarrow> int \<Rightarrow> bool" where
  "cooled_down lastTime currentTime =
     (case lastTime of None \<Rightarrow> True | Some t \<Rightarrow> t = 0 \<or> currentTime - t > 2000)"

definition event_step ::
  "rounding \<Rightarrow> rec list \<Rightarrow> int list \<Rightarrow> int list \<Rightarrow> ev_state \<Rightarrow> rec \<Rightarrow> ev_state" where
  "event_step rnd accelRecords xFiltered yFiltered s r =
     (let spd = speed_of r;
          rpm = or_zero (obdEngineRpm r);
          currentTime = rec_timestamp r;
          ign = or_zero (ignition r);
          mov = or_zero (movement r);
          s1 = s\<lparr>ev_maxSpeed := (if spd > ev_maxSpeed s then spd else ev_maxSpeed s),
                ev_maxRpm := (if rpm > ev_maxRpm s then rpm else ev_maxRpm s)\<rparr>;
          deltaSeconds =
            (case prevRecord s of
               None \<Rightarrow> 5
             | Some p \<Rightarrow>
                 min (max 1 (rnd (of_int (currentTime - rec_timestamp p) / 1000))) 60);
          s2 = (if ign = 1 \<and> spd < 3 \<and> mov = 0
                then s1\<lparr>idleSeconds := rnd (idleSeconds s1 + deltaSeconds)\<rparr> else s1);
          s3 =
            (case findIndex (\<lambda>ar. rec_timestamp ar = currentTime) accelRecords of
               None \<Rightarrow> s2
             | Some accelIdx \<Rightarrow>
                 if spd \<ge> 10 then
                   (let devX = xFiltered ! accelIdx;
                        devY = yFiltered ! accelIdx;
                        sb = (if devX < - 150 \<and> cooled_down (lastBrakeTime s2) currentTime
                              then s2\<lparr>hardBraking := hardBraking s2 + 1,
                                      lastBrakeTime := Some currentTime\<rparr>
                              else s2);
                        sa = (if devX > 200 \<and> cooled_down (lastAccelTime sb) currentTime
                              then sb\<lparr>hardAcceleration := hardAcceleration sb + 1,
                                      lastAccelTime := Some currentTime\<rparr>
                              else sb)
                    in if \<bar>devY\<bar> > 150 \<and> spd \<ge> 20 \<and> cooled_down (lastCornerTime sa) currentTime
                       then sa\<lparr>harshCornering := harshCornering sa + 1,
                               lastCornerTime := Some currentTime\<rparr>
                       else sa)
                 else s2)
      in s3\<lparr>prevRecord := Some r\<rparr>)"

text \<open>
  STEP 4 of \<open>calculateDriverBehavior\<close>, lines 634 to 663 of \<open>src/server/db.js\<close>:
  the duration factor, the raw
  penalties with their caps, the normalized penalty with its floor for severe events, and
  the two scores. The driver score is computed from penalties that are integers up to
  60 and a duration in whole minutes; its quotients \<open>tripDurationMinutes / 10\<close> and
  \<open>totalRawPenalty / durationFactor\<close> are exact here.
\<close>

definition durationFactor :: "int \<Rightarrow> rat" where
  "durationFactor tripDurationMinutes = min 6 (max 1 (of_int tripDurationMinutes / 10))"

definition rawPenalties :: "nat \<Rightarrow> nat \<Rightarrow> nat \<Rightarrow> int list" where
  "rawPenalties hb ha hc = [min 25 (int hb * 4), min 20 (int ha * 2), min 15 (int hc * 3)]"

definition totalRawPenalty :: "nat \<Rightarrow> nat \<Rightarrow> nat \<Rightarrow> int" where
  "totalRawPenalty hb ha hc = foldl (\<lambda>a b. a + b) 0 (rawPenalties hb ha hc)"

definition severeEvents :: "nat \<Rightarrow> nat \<Rightarrow> nat" where
  "severeEvents hb hc = hb + hc"

definition normalizedPenalty :: "nat \<Rightarrow> nat \<Rightarrow> nat \<Rightarrow> int \<Rightarrow> rat" where
  "normalizedPenalty hb ha hc tripDurationMinutes =
     max (of_int (totalRawPenalty hb ha hc) / durationFactor tripDurationMinutes)
         (if severeEvents hb hc > 0 then 3 else 0)"

definition driverScore_step :: "nat \<Rightarrow> nat \<Rightarrow> nat \<Rightarrow> int \<Rightarrow> int" where
  "driverScore_step hb ha hc tripDurationMinutes =
     max 0 (min 100 (js_round (100 - normalizedPenalty hb ha hc tripDurationMinutes)))"

text \<open>
  \<open>Math.round(idleSeconds / 60)\<close>, \<open>Math.min(30, Math.floor(idleMinutes / 5) * 2)\<close> and
  \<open>Math.max(0, Math.min(100, 100 - idlePenalty))\<close>.
\<close>

definition idleMinutes_of :: "rounding \<Rightarrow> rat \<Rightarrow> int" where
  "idleMinutes_of rnd idleSecs = js_round (rnd (idleSecs / 60))"

definition idlePenalty_of :: "rounding \<Rightarrow> rat \<Rightarrow> int" where
  "idlePenalty_of rnd idleSecs =
     min 30 (\<lfloor>rnd (of_int (idleMinutes_of rnd idleSecs) / 5)\<rfloor> * 2)"

definition efficiencyScore_step :: "rounding \<Rightarrow> rat \<Rightarrow> int" where
  "efficiencyScore_step rnd idleSecs = max 0 (min 100 (100 - idlePenalty_of rnd idleSecs))"

text \<open>The confidence reasons, in the order in which they are pushed.\<close>

definition confidenceReasons_of ::
  "rounding \<Rightarrow> rec list \<Rightarrow> rec list \<Rightarrow> int \<Rightarrow> string list" where
  "confidenceReasons_of rnd tripRecords accelRecords tripDurationMinutes =
     (let gpsRecords = filter has_satellites tripRecords;
          avgSatellites =
            (if length gpsRecords > 0
             then rnd (of_int (foldl (\<lambda>sum r. sum + (case rec_gps r of None \<Rightarrow> 0
                                                       | Some g \<Rightarrow> int (satellites g))) 0 gpsRecords)
                       / of_nat (length gpsRecords))
             else 0);
          accelCoverage = rnd (of_nat (length accelRecords) / of_nat (length tripRecords));
          startOdo = totalOdometer (hd tripRecords);
          endOdo = totalOdometer (last tripRecords)
      in (if avgSatellites < 3 then [''poor_gnss''] else []) @
         (if accelCoverage < rnd (3 / 10) then [''low_accel_coverage''] else []) @
         (if tripDurationMinutes < 5 then [''short_trip''] else []) @
         (if truthy startOdo \<and> truthy endOdo \<and> startOdo = endOdo
          then [''distance_estimated''] else []))"

definition confidenceLevel_of :: "string list \<Rightarrow> string" where
  "confidenceLevel_of confidenceReasons =
     (let scoreAffectingReasons = filter (\<lambda>r. r \<noteq> ''short_trip'') confidenceReasons
      in if length scoreAffectingReasons \<ge> 2 then ''low''
         else if length scoreAffectingReasons = 1 then ''medium''
         else ''high'')"

record driver_behavior =
  score :: int
  driverScore :: int
  efficiencyScore :: int
  perfectTrip :: bool
  confidence_level :: string
  confidence_reasons :: "string list"
  events_hardBraking :: nat
  events_hardAcceleration :: nat
  events_harshCornering :: nat
  events_idleMinutes :: int
  penalties_raw :: "int list"
  penalties_totalRaw :: int
  penalties_normalized :: rat
  penalties_durationFactor :: rat
  penalties_severeEvents :: nat
  penalties_idlePenalty :: int
  db_maxSpeed :: int
  db_maxRpm :: int
  baseline_x :: int
  baseline_y :: int
  analysis_recordsWithAccel :: nat
  analysis_totalRecords :: nat
  analysis_tripDurationMinutes :: int

text \<open>
  \<open>calculateDriverBehavior\<close>, in the steps its comments name. The result \<open>null\<close> is
  \<open>None\<close>. Where the function indexes an array (\<open>xValues[midIdx]\<close>,
  \<open>xFiltered[accelIdx]\<close>, \<open>tripRecords[0]\<close>) the index is inside the array: there are
  at least three stationary records in that branch, the filtered lists are as long as
  \<open>accelRecords\<close>, and \<open>tripRecords\<close> holds at least the five records with
  accelerometer data. The two rounded figures of the \<open>confidence\<close> object
  (\<open>accelCoverage\<close>, \<open>avgSatellites\<close>) are left out of the result record.
\<close>

definition hasAccel :: "rec \<Rightarrow> bool" where
  "hasAccel r = (accelerometerX r \<noteq> None \<and> accelerometerY r \<noteq> None)"

text \<open>STEP 1: the baseline of one axis, \<open>axis\<close> being the signed reading of a record.\<close>

definition baseline :: "rounding \<Rightarrow> (rec \<Rightarrow> int) \<Rightarrow> rec list \<Rightarrow> rec list \<Rightarrow> int" where
  "baseline rnd axis tripRecords accelRecords =
     (let stationaryRecords = filter (\<lambda>r. speed_of r < 3 \<and> hasAccel r) tripRecords;
          midIdx = length stationaryRecords div 2;
          firstRecords = take 5 accelRecords
      in if length stationaryRecords \<ge> 3 then sort (map axis stationaryRecords) ! midIdx
         else js_round (rnd (of_int (foldl (\<lambda>sum r. sum + axis r) 0 firstRecords)
                             / of_nat (length firstRecords))))"

text \<open>STEP 4 and the confidence calculation: the result object from the events found.\<close>

definition behavior_result ::
  "rounding \<Rightarrow> rec list \<Rightarrow> rec list \<Rightarrow> ev_state \<Rightarrow> int \<Rightarrow> int \<Rightarrow> driver_behavior" where
  "behavior_result rnd tripRecords accelRecords ev baselineX baselineY =
     (let tripDurationMinutes =
            js_round (rnd (of_int (rec_timestamp (last tripRecords)
                                   - rec_timestamp (hd tripRecords)) / 60000));
          hb = hardBraking ev; ha = hardAcceleration ev; hc = harshCornering ev;
          driverScore0 = driverScore_step hb ha hc tripDurationMinutes;
          confidenceReasons =
            confidenceReasons_of rnd tripRecords accelRecords tripDurationMinutes;
          confidenceLevel = confidenceLevel_of confidenceReasons;
          finalDriverScore =
            (if confidenceLevel = ''low'' \<and> driverScore0 > 95 then 95 else driverScore0)
      in \<lparr>score = finalDriverScore,
          driverScore = finalDriverScore,
          efficiencyScore = efficiencyScore_step rnd (idleSeconds ev),
          perfectTrip = (totalRawPenalty hb ha hc = 0 \<and> confidenceLevel = ''high''
                         \<and> tripDurationMinutes \<ge> 5),
          confidence_level = confidenceLevel,
          confidence_reasons = confidenceReasons,
          events_hardBraking = hb,
          events_hardAcceleration = ha,
          events_harshCornering = hc,
          events_idleMinutes = idleMinutes_of rnd (idleSeconds ev),
          penalties_raw = rawPenalties hb ha hc,
          penalties_totalRaw = totalRawPenalty hb ha hc,
          penalties_normalized =
            round_tenths rnd (normalizedPenalty hb ha hc tripDurationMinutes),
          penalties_durationFactor = round_tenths rnd (durationFactor tripDurationMinutes),
          penalties_severeEvents = severeEvents hb hc,
          penalties_idlePenalty = idlePenalty_of rnd (idleSeconds ev),
          db_maxSpeed = ev_maxSpeed ev,
          db_maxRpm = ev_maxRpm ev,
          baseline_x = baselineX,
          baseline_y = baselineY,
          analysis_recordsWithAccel = length accelRecords,
          analysis_totalRecords = length tripRecords,
          analysis_tripDurationMinutes = tripDurationMinutes\<rparr>)"

definition calculateDriverBehavior :: "rounding \<Rightarrow> rec list \<Rightarrow> driver_behavior option" where
  "calculateDriverBehavior rnd tripRecords =
     (let accX = (\<lambda>r. or_zero (toSigned16 (accelerometerX r)));
          accY = (\<lambda>r. or_zero (toSigned16 (accelerometerY r)));
          accelRecords = filter hasAccel tripRecords
      in if length accelRecords < 5 then None
         else
          (let baselineX = baseline rnd accX tripRecords accelRecords;
               baselineY = baseline rnd accY tripRecords accelRecords;
               xFiltered = medianFilter (map (\<lambda>r. accX r - baselineX) accelRecords);
               yFiltered = medianFilter (map (\<lambda>r. accY r - baselineY) accelRecords);
               ev = foldl (event_step rnd accelRecords xFiltered yFiltered) ev_init tripRecords
           in Some (behavior_result rnd tripRecords accelRecords ev baselineX baselineY)))"



section \<open>Trip segmentation\<close>

text \<open>
  The trip object that \<open>GET /devices/:imei/trips\<close> builds. An optional field that the
  handler does not set is \<open>None\<close>; the flags \<open>distanceEstimated\<close> and \<open>fuelFromGps\<close>
  are \<open>False\<close> when absent.
\<close>

record trip =
  startTime :: int
  startOdometer :: "int option"
  endTime :: int
  endOdometer :: "int option"
  distanceMeters :: "int option"
  distanceKm :: "rat option"
  distanceEstimated :: bool
  duration :: string
  durationMinutes :: int
  avgSpeedTotal :: "rat option"
  maxSpeed :: int
  avgSpeedMoving :: "rat option"
  fuelUsedMl :: "int option"
  fuelUsedLiters :: "rat option"
  fuelPer100km :: "rat option"
  fuelFromGps :: bool
  startPosition :: "gps_element option"
  endPosition :: "gps_element option"
  driverBehavior :: "driver_behavior option"

text \<open>\<open>const isEngineOn = (r) => r.ignition === 1 || (r.obdEngineRpm && r.obdEngineRpm > 0)\<close>.\<close>

definition isEngineOn :: "rec \<Rightarrow> bool" where
  "isEngineOn r =
     (ignition r = Some 1 \<or> (truthy (obdEngineRpm r) \<and> or_zero (obdEngineRpm r) > 0))"

text \<open>
  The estimate of the distance from speed and time (\<open>src/server/db.js\<close>, lines 825 to
  833): for each record but the first, in their order, \<open>estimatedDistanceMeters +=
  (speed / 3.6) * deltaSeconds\<close> with the speed of the record before it and
  \<open>deltaSeconds = (currTime - prevTime) / 1000\<close>. \<open>estimate_loop\<close> is the loop from
  the value \<open>acc\<close> of the variable; every quotient, product and sum is rounded.
\<close>

fun estimate_loop :: "rounding \<Rightarrow> rat \<Rightarrow> rec list \<Rightarrow> rat" where
  "estimate_loop rnd acc (p # c # rest) =
     (let deltaSeconds = rnd (of_int (rec_timestamp c - rec_timestamp p) / 1000);
          spd = speed_of p
      in estimate_loop rnd
           (rnd (acc + rnd (rnd (of_int spd / rnd (36 / 10)) * deltaSeconds))) (c # rest))"
| "estimate_loop rnd acc rs = acc"

definition estimate_distance :: "rounding \<Rightarrow> rec list \<Rightarrow> rat" where
  "estimate_distance rnd tripRecords = estimate_loop rnd 0 tripRecords"

text \<open>A template literal prints an integer in decimal, with a minus sign when negative.\<close>

definition int_string :: "int \<Rightarrow> string" where
  "int_string i = (if i < 0 then ''-'' @ dec_string (nat (- i)) else dec_string (nat i))"

text \<open>JavaScript's \<open>%\<close> on integers: the remainder has the sign of the dividend.\<close>

definition js_rem :: "int \<Rightarrow> int \<Rightarrow> int" where
  "js_rem a b = (if a < 0 then - ((- a) mod \<bar>b\<bar>) else a mod \<bar>b\<bar>)"

text \<open>
  The body of the branch that ends a trip (\<open>src/server/db.js\<close>, lines 811 to 904), for
  the open
  trip \<open>(startTime, startOdometer)\<close> and a record set that is not empty;
  \<open>lastOnRecord\<close> is \<open>tripRecords[tripRecords.length - 1]\<close>.
\<close>

definition close_trip :: "rounding \<Rightarrow> int \<times> int option \<Rightarrow> rec list \<Rightarrow> trip" where
  "close_trip rnd currentTrip tripRecords =
     (let startT = fst currentTrip;
          startOdo = snd currentTrip;
          lastOnRecord = last tripRecords;
          endT = rec_timestamp lastOnRecord;
          endOdo = totalOdometer lastOnRecord;
          fromOdometer =
            (if truthy startOdo \<and> truthy endOdo
             then Some (or_zero endOdo - or_zero startOdo) else None);
          estimatedDistanceMeters = estimate_distance rnd tripRecords;
          estimated = ((fromOdometer = Some 0 \<or> \<not> truthy fromOdometer)
                       \<and> estimatedDistanceMeters > 0);
          distM = (if estimated then Some (js_round estimatedDistanceMeters) else fromOdometer);
          distKm =
            (if estimated then Some (km_of_meters rnd estimatedDistanceMeters)
             else map_option (\<lambda>m. km_of_meters rnd (of_int m)) fromOdometer);
          totalMinutes = js_round (rnd (of_int (endT - startT) / 60000));
          hours = \<lfloor>rnd (of_int totalMinutes / 60)\<rfloor>;
          minutes = js_rem totalMinutes 60;
          moving = filter (\<lambda>s. s > 0) (map speed_of tripRecords);
          startFuel = fuelUsedGps (hd tripRecords);
          endFuel = fuelUsedGps lastOnRecord;
          fuelMl =
            (case (startFuel, endFuel, distKm) of
               (Some sf, Some ef, Some km) \<Rightarrow>
                 if km \<ge> 2 \<and> totalMinutes \<ge> 5 \<and> ef - sf > 0 then Some (ef - sf, km) else None
             | _ \<Rightarrow> None);
          liters = (\<lambda>ml. rnd (of_int (js_round (rnd (of_int ml / 10))) / 100));
          validGpsRecords = filter has_satellites tripRecords
      in \<lparr>startTime = startT,
          startOdometer = startOdo,
          endTime = endT,
          endOdometer = endOdo,
          distanceMeters = distM,
          distanceKm = distKm,
          distanceEstimated = estimated,
          duration =
            (if hours > 0 then int_string hours @ ''h '' @ int_string minutes @ ''m''
             else int_string minutes @ ''m''),
          durationMinutes = totalMinutes,
          avgSpeedTotal =
            (case distKm of
               Some km \<Rightarrow>
                 if truthy distM \<and> totalMinutes > 0
                 then Some (round_tenths rnd (rnd (km / rnd (of_int totalMinutes / 60))))
                 else None
             | None \<Rightarrow> None),
          maxSpeed = foldl max 0 moving,
          avgSpeedMoving =
            (if length moving > 0
             then Some (round_tenths rnd (rnd (of_int (foldl (\<lambda>a b. a + b) 0 moving)
                                               / of_nat (length moving))))
             else None),
          fuelUsedMl = map_option fst fuelMl,
          fuelUsedLiters = map_option (\<lambda>(ml, km). liters ml) fuelMl,
          fuelPer100km =
            map_option (\<lambda>(ml, km). round_tenths rnd (rnd (rnd (liters ml / km) * 100))) fuelMl,
          fuelFromGps = (fuelMl \<noteq> None),
          startPosition =
            (if length validGpsRecords > 0 then rec_gps (hd validGpsRecords)
             else rec_gps (hd tripRecords)),
          endPosition =
            (if length validGpsRecords > 0 then rec_gps (last validGpsRecords)
             else rec_gps (last tripRecords)),
          driverBehavior = calculateDriverBehavior rnd tripRecords\<rparr>)"

text \<open>
  The variables of the loop over \<open>records\<close>. \<open>currentTrip\<close> holds the two fields the
  trip has while it is open, \<open>startTime\<close> and \<open>startOdometer\<close>.
\<close>

record loop_state =
  trips :: "trip list"
  currentTrip :: "(int \<times> int option) option"
  tripRecords :: "rec list"
  lastEngineOnTime :: "int option"

definition loop_init :: loop_state where
  "loop_init = \<lparr>trips = [], currentTrip = None, tripRecords = [], lastEngineOnTime = None\<rparr>"

text \<open>
  The handler runs inside \<open>try\<close>: reading \<open>lastOnRecord.timestamp\<close> of an empty
  \<open>tripRecords\<close> would raise a TypeError and end the request with status 500.
\<close>

datatype api_error = TypeError

text \<open>\<open>currentTrip.distanceMeters > 100\<close>; the comparison is false for \<open>undefined\<close>.\<close>

definition over_100 :: "int option \<Rightarrow> bool" where
  "over_100 d = (case d of None \<Rightarrow> False | Some m \<Rightarrow> m > 100)"

definition trip_step :: "rounding \<Rightarrow> loop_state \<Rightarrow> rec \<Rightarrow> api_error + loop_state" where
  "trip_step rnd s record =
     (let engineOn = isEngineOn record in
      if engineOn \<and> currentTrip s = None then
        Inr (s\<lparr>currentTrip := Some (rec_timestamp record, totalOdometer record),
               tripRecords := [record],
               lastEngineOnTime := Some (rec_timestamp record)\<rparr>)
      else if engineOn \<and> currentTrip s \<noteq> None then
        Inr (s\<lparr>tripRecords := tripRecords s @ [record],
               lastEngineOnTime := Some (rec_timestamp record)\<rparr>)
      else
        (case currentTrip s of
           None \<Rightarrow> Inr s
         | Some ct \<Rightarrow>
             let timeSinceLastOn = rec_timestamp record - or_zero (lastEngineOnTime s) in
             if timeSinceLastOn > 60000 then
               (if tripRecords s = [] then Inl TypeError
                else
                  let t = close_trip rnd ct (tripRecords s) in
                  Inr (s\<lparr>trips := (if durationMinutes t \<ge> 2 \<or> over_100 (distanceMeters t)
                                    then trips s @ [t] else trips s),
                         currentTrip := None,
                         tripRecords := []\<rparr>))
             else Inr s))"

fun trip_loop :: "rounding \<Rightarrow> loop_state \<Rightarrow> rec list \<Rightarrow> api_error + loop_state" where
  "trip_loop rnd s [] = Inr s"
| "trip_loop rnd s (record # records) =
     (case trip_step rnd s record of Inl e \<Rightarrow> Inl e | Inr s' \<Rightarrow> trip_loop rnd s' records)"

text \<open>
  The response: the trips sorted by start time, latest first (the sort is stable), cut
  to \<open>limit\<close>.
\<close>

definition get_trips :: "rounding \<Rightarrow> rec list \<Rightarrow> nat \<Rightarrow> api_error + trip list" where
  "get_trips rnd records limit =
     (case trip_loop rnd loop_init records of
        Inl e \<Rightarrow> Inl e
      | Inr s \<Rightarrow> Inr (take limit (sort_key (\<lambda>t. - startTime t) (trips s))))"

section \<open>The store and the session\<close>

text \<open>
  The documents of the store, as far as the connection handler of \<open>src/server/server.js\<close>
  and the functions of \<open>models.js\<close> (held in \<open>src/server/db.js\<close>, lines 1344 to 1617)
  write and read them. A device document carries \<open>approved\<close> only if
  something has set it: \<open>None\<close> is an absent field. A record document carries the IMEI
  of the session (\<open>null\<close> is \<open>None\<close>), the VIN, the modem type and the decoded record
  whose GPS and IO elements \<open>buildRecordDoc\<close> copies into named fields. Server time
  stamps (\<open>createdAt\<close>, \<open>lastSeen\<close>) are left out.
\<close>

record device =
  imei :: "string option"
  modemType :: string
  vin :: "io_value option"
  approved :: "bool option"

record raw_doc =
  raw_imei :: "string option"
  raw_vin :: "io_value option"
  raw_modemType :: string
  rawHex :: string

record record_doc =
  doc_imei :: "string option"
  doc_vin :: "io_value option"
  doc_modemType :: string
  doc_record :: avl_record

text \<open>
  \<open>connected\<close> says whether \<open>getDb()\<close> returns a database. The collections
  \<open>raw_<type>\<close> and \<open>records_<type>\<close> are lists of pairs of the collection name and
  the document, in insertion order.
\<close>

record store =
  connected :: bool
  devices :: "device list"
  raw_docs :: "(string \<times> raw_doc) list"
  record_docs :: "(string \<times> record_doc) list"

text \<open>JavaScript truthiness of a value that is a number or a string.\<close>

definition truthy_value :: "io_value option \<Rightarrow> bool" where
  "truthy_value v =
     (case v of None \<Rightarrow> False | Some (NumVal n) \<Rightarrow> n \<noteq> 0 | Some (StrVal s) \<Rightarrow> s \<noteq> [])"

text \<open>\<open>vin || null\<close>.\<close>

definition or_null :: "io_value option \<Rightarrow> io_value option" where
  "or_null v = (if truthy_value v then v else None)"

text \<open>\<open>(modemType || 'unknown').toLowerCase().replace(/[^a-z0-9]/g, '')\<close>.\<close>

definition lower_char :: "char \<Rightarrow> char" where
  "lower_char c =
     (let n = (of_char c :: nat) in if 65 \<le> n \<and> n \<le> 90 then char_of (n + 32) else c)"

definition is_lower_alnum :: "char \<Rightarrow> bool" where
  "is_lower_alnum c =
     (let n = (of_char c :: nat) in (97 \<le> n \<and> n \<le> 122) \<or> (48 \<le> n \<and> n \<le> 57))"

definition getCollectionName :: "string \<Rightarrow> string \<Rightarrow> string" where
  "getCollectionName prefix mt =
     prefix @ ''_'' @ filter is_lower_alnum (map lower_char (if mt = [] then ''unknown'' else mt))"

definition getDevice :: "store \<Rightarrow> string \<Rightarrow> device option" where
  "getDevice db i = (if \<not> connected db then None else find (\<lambda>d. imei d = Some i) (devices db))"

text \<open>
  \<open>upsertDevice\<close>: \<open>updateOne({ imei }, { $set: { modemType, lastSeen, vin? },
  $setOnInsert: { imei, createdAt } }, { upsert: true })\<close>. The first document with this
  IMEI is updated; when there is none a document without \<open>approved\<close> is inserted.
\<close>

fun update_first :: "('a \<Rightarrow> bool) \<Rightarrow> ('a \<Rightarrow> 'a) \<Rightarrow> 'a list \<Rightarrow> 'a list" where
  "update_first P f [] = []"
| "update_first P f (x # xs) = (if P x then f x # xs else x # update_first P f xs)"

definition upsertDevice :: "store \<Rightarrow> string option \<Rightarrow> io_value option \<Rightarrow> string \<Rightarrow> store" where
  "upsertDevice db i v mt =
     (if \<not> connected db then db
      else
        let set_fields = (\<lambda>d. if truthy_value v then d\<lparr>modemType := mt, vin := v\<rparr>
                               else d\<lparr>modemType := mt\<rparr>)
        in if \<exists>d \<in> set (devices db). imei d = i
           then db\<lparr>devices := update_first (\<lambda>d. imei d = i) set_fields (devices db)\<rparr>
           else db\<lparr>devices := devices db @
                   [set_fields \<lparr>imei = i, modemType = mt, vin = None, approved = None\<rparr>]\<rparr>)"

definition saveRawData :: "store \<Rightarrow> string option \<Rightarrow> io_value option \<Rightarrow> string \<Rightarrow> string \<Rightarrow> store" where
  "saveRawData db i v hex mt =
     (if \<not> connected db then db
      else db\<lparr>raw_docs := raw_docs db @
             [(getCollectionName ''raw'' mt,
               \<lparr>raw_imei = i, raw_vin = or_null v, raw_modemType = mt, rawHex = hex\<rparr>)]\<rparr>)"

text \<open>
  \<open>buildRecordDoc\<close> sets \<open>imei\<close>, \<open>vin: vin || null\<close> and \<open>modemType\<close>, copies the
  record, and then assigns \<open>doc[fieldName] = elem.value\<close> for each IO element in turn
  whose id \<open>ioIdToFieldName\<close> maps to a name. One of these names, \<open>vin\<close> for the id 256,
  is a field set before: the last IO element 256 of the record, if there is one,
  overwrites the session's VIN with its value, whatever the value is. The other names
  are new fields, whose values \<open>doc_record\<close> holds.
\<close>

definition buildRecordDoc :: "string option \<Rightarrow> io_value option \<Rightarrow> string \<Rightarrow> avl_record \<Rightarrow> record_doc" where
  "buildRecordDoc i v mt r =
     \<lparr>doc_imei = i,
      doc_vin =
        (case filter (\<lambda>e. elem_id e = 256) (elements (io r)) of
           [] \<Rightarrow> or_null v
         | e # es \<Rightarrow> Some (elem_value (last (e # es)))),
      doc_modemType = mt,
      doc_record = r\<rparr>"

text \<open>
  \<open>saveRecords\<close>: \<open>insertMany\<close> of one document for each record. The indexes that
  \<open>db.js\<close> creates on the records collections are not unique, so every document is
  inserted.
\<close>

definition saveRecords :: "store \<Rightarrow> string option \<Rightarrow> io_value option \<Rightarrow> string \<Rightarrow> avl_record list \<Rightarrow> store" where
  "saveRecords db i v mt records =
     (if \<not> connected db then db
      else db\<lparr>record_docs := record_docs db @
             map (\<lambda>r. (getCollectionName ''records'' mt, buildRecordDoc i v mt r)) records\<rparr>)"

text \<open>\<open>CODEC_DEVICE_MAP[codecId] || 'UNKNOWN'\<close>.\<close>

definition getDeviceType :: "nat \<Rightarrow> string" where
  "getDeviceType cid = (if cid = 8 \<or> cid = 142 then ''FMC003'' else ''UNKNOWN'')"

definition extractVIN :: "io_data \<Rightarrow> io_value option" where
  "extractVIN ioElements = map_option elem_value (find (\<lambda>e. elem_id e = 256) (elements ioElements))"

text \<open>
  The variables of one connection. \<open>destroyed\<close> is set by \<open>socket.destroy()\<close>, after
  which the socket delivers no data.
\<close>

record session =
  deviceIMEI :: "string option"
  deviceVIN :: "io_value option"
  deviceType :: "string option"
  destroyed :: bool

definition new_session :: session where
  "new_session = \<lparr>deviceIMEI = None, deviceVIN = None, deviceType = None, destroyed = False\<rparr>"

text \<open>
  The handler of the socket's \<open>data\<close> event, for one buffer: the store and the session
  after it, and the buffers written to the socket. The promises of \<open>upsertDevice\<close>,
  \<open>saveRawData\<close> and \<open>saveRecords\<close> are taken to settle in the order of their calls.
  A string returned by \<open>parseIMEI\<close> has 15 characters and is truthy.
\<close>

definition on_data :: "store \<Rightarrow> session \<Rightarrow> buffer \<Rightarrow> store \<times> session \<times> buffer list" where
  "on_data db s buffer =
     (if destroyed s then (db, s, [])
      else case parseIMEI buffer of
        Inl e \<Rightarrow> (db, s, [])
      | Inr (Some i) \<Rightarrow>
          (case getDevice db i of
             None \<Rightarrow> (db, s\<lparr>destroyed := True\<rparr>, [[0]])
           | Some dev \<Rightarrow>
               if approved dev = Some False then (db, s\<lparr>destroyed := True\<rparr>, [[0]])
               else (db, s\<lparr>deviceIMEI := Some i\<rparr>, [[1]]))
      | Inr None \<Rightarrow>
          (case decodeCodec8 buffer of
             Inl e \<Rightarrow> (db, s, [])
           | Inr decoded \<Rightarrow>
               let dt = getDeviceType (codecId decoded);
                   v = (if length (avlRecords decoded) > 0 \<and> \<not> truthy_value (deviceVIN s)
                        then extractVIN (io (hd (avlRecords decoded))) else deviceVIN s);
                   db1 = upsertDevice db (deviceIMEI s) v dt;
                   db2 = saveRawData db1 (deviceIMEI s) v (to_hex buffer) dt;
                   db3 = (if length (avlRecords decoded) > 0
                          then saveRecords db2 (deviceIMEI s) v dt (avlRecords decoded)
                          else db2)
               in (db3, s\<lparr>deviceVIN := v, deviceType := Some dt\<rparr>,
                   [[0, 0, 0, of_nat (numberOfData1 decoded)]])))"

text \<open>A connection is a new session fed the buffers it receives, one after the other.\<close>

fun run_session :: "store \<Rightarrow> session \<Rightarrow> buffer list \<Rightarrow> store \<times> session" where
  "run_session db s [] = (db, s)"
| "run_session db s (b # bs) = (case on_data db s b of (db', s', out) \<Rightarrow> run_session db' s' bs)"

section \<open>Predicates used in the proofs\<close>

text \<open>
  A reader is local when a successful run from an offset inside the buffer ends inside
  the buffer, moves the offset forwards only, and gives the same value and offset on
  every buffer that agrees with this one up to the final offset: it has looked at no
  byte at or beyond it.
\<close>

definition local_r :: "'a reader \<Rightarrow> bool" where
  "local_r m \<longleftrightarrow>
     (\<forall>d off v off'. off \<le> length d \<and> m d off = Inr (v, off') \<longrightarrow>
        off \<le> off' \<and> off' \<le> length d \<and>
        (\<forall>d'. take off' d' = take off' d \<longrightarrow> m d' off = Inr (v, off')))"

text \<open>A reader is safe when none of Node's primitive reads in it leaves the buffer.\<close>

definition safe_r :: "'a reader \<Rightarrow> bool" where
  "safe_r m \<longleftrightarrow> (\<forall>d off. m d off \<noteq> Inl ERR_OUT_OF_RANGE)"

text \<open>
  \<open>decode\<close> up to the last record, before the second count and the CRC field are
  read, and the packet built from these three parts.
\<close>

definition decode_records :: "(nat \<times> nat \<times> nat \<times> nat \<times> avl_record list) reader" where
  "decode_records =
     bind_r readUInt32 (\<lambda>pre.
     bind_r readUInt32 (\<lambda>len.
     bind_r readUInt8 (\<lambda>cid.
     bind_r readUInt8 (\<lambda>n1.
     if cid = 8 \<or> cid = 142
     then bind_r (repeat_r n1 (decodeAVLRecord (cid = 142))) (\<lambda>recs.
            return_r (pre, len, cid, n1, recs))
     else throw_r (UnsupportedCodec cid)))))"

definition mk_packet ::
  "nat \<times> nat \<times> nat \<times> nat \<times> avl_record list \<Rightarrow> nat \<Rightarrow> nat \<Rightarrow> decoded_packet" where
  "mk_packet h n2 c =
     (case h of (pre, len, cid, n1, recs) \<Rightarrow>
        \<lparr>preamble = pre, dataFieldLength = len, codecId = cid, numberOfData1 = n1,
         avlRecords = recs, numberOfData2 = n2, crc = c\<rparr>)"

text \<open>
  A whole frame: \<open>decode\<close> accepts it and its final offset is the length of the
  buffer, so the buffer holds one frame and nothing after it. This is the weakest
  reading of a well-formed frame: nothing is asked of the preamble, the length field,
  the two counts or the CRC.
\<close>

definition whole_frame :: "buffer \<Rightarrow> bool" where
  "whole_frame f = (case decode f 0 of Inl e \<Rightarrow> False | Inr (p, off) \<Rightarrow> off = length f)"

text \<open>
  A Codec 8 frame used as a concrete input: a single record (timestamp 1704067200000,
  priority 1, 9 satellites, speed 50, IO element 239 = 1), both counts 1.
\<close>

definition frame_one_record :: buffer where
  "frame_one_record =
     [0, 0, 0, 0, 0, 0, 0, 35, 8, 1,
      0, 0, 1, 140, 194, 81, 244, 0, 1,
      15, 127, 73, 0, 26, 57, 222, 0, 0, 100, 0, 90, 9, 0, 50,
      239, 1, 1, 239, 1, 0, 0, 0,
      1, 0, 0, 0, 0]"

text \<open>
  The invariant of the trip loop after the records \<open>rs\<close>: with no trip open the record
  set is empty; with a trip open, \<open>rs\<close> ends in the records \<open>post\<close> since the trip was
  opened, the first of them is the engine-on record that opened it, and the record set
  holds the engine-on records among them.
\<close>

definition loop_inv :: "rec list \<Rightarrow> loop_state \<Rightarrow> bool" where
  "loop_inv rs s =
     (case currentTrip s of
        None \<Rightarrow> tripRecords s = []
      | Some ct \<Rightarrow>
          (\<exists>pre post. rs = pre @ post \<and> post \<noteq> [] \<and> isEngineOn (hd post) \<and>
             ct = (rec_timestamp (hd post), totalOdometer (hd post)) \<and>
             tripRecords s = filter isEngineOn post \<and>
             lastEngineOnTime s = Some (rec_timestamp (last (filter isEngineOn post)))))"

text \<open>
  Records used as concrete inputs of the analyzer: a record with the ignition on or off
  at a time and an odometer reading, a record with the ignition on, an OBD speed and no
  odometer reading, and a record with accelerometer data, no GPS fix and
  an OBD speed. \<open>hard_brake_trip\<close> has three stationary samples, then speed 40 with
  three consecutive samples of -400 mG (65136 unsigned) on the X axis.
\<close>

definition moving_at :: "int \<Rightarrow> int \<Rightarrow> rec" where
  "moving_at t spd =
     \<lparr>rec_timestamp = t, rec_gps = None, ignition = Some 1, movement = Some 1,
      obdEngineRpm = None, obdVehicleSpeed = Some spd, totalOdometer = None,
      fuelUsedGps = None, accelerometerX = None, accelerometerY = None\<rparr>"

definition engine_on_at :: "int \<Rightarrow> int \<Rightarrow> rec" where
  "engine_on_at t odo =
     \<lparr>rec_timestamp = t, rec_gps = None, ignition = Some 1, movement = None,
      obdEngineRpm = None, obdVehicleSpeed = None, totalOdometer = Some odo,
      fuelUsedGps = None, accelerometerX = None, accelerometerY = None\<rparr>"

definition engine_off_at :: "int \<Rightarrow> int \<Rightarrow> rec" where
  "engine_off_at t odo =
     \<lparr>rec_timestamp = t, rec_gps = None, ignition = Some 0, movement = None,
      obdEngineRpm = None, obdVehicleSpeed = None, totalOdometer = Some odo,
      fuelUsedGps = None, accelerometerX = None, accelerometerY = None\<rparr>"

definition accel_rec :: "int \<Rightarrow> int \<Rightarrow> int \<Rightarrow> rec" where
  "accel_rec t x spd =
     \<lparr>rec_timestamp = t, rec_gps = None, ignition = Some 1, movement = Some 1,
      obdEngineRpm = None, obdVehicleSpeed = Some spd, totalOdometer = Some 1000,
      fuelUsedGps = None, accelerometerX = Some x, accelerometerY = Some 0\<rparr>"

definition hard_brake_trip :: "rec list" where
  "hard_brake_trip =
     [accel_rec 0 0 0, accel_rec 1000 0 0, accel_rec 2000 0 0, accel_rec 3000 0 40,
      accel_rec 4000 65136 40, accel_rec 5000 65136 40, accel_rec 6000 65136 40,
      accel_rec 7000 0 40]"

section \<open>Properties of the rounding\<close>

text \<open>
  \<open>binade x\<close> is the exponent of \<open>x\<close>. \<open>round_double x\<close> is a multiple
  \<open>m * 2 ^ (e - 52)\<close> of the spacing of the doubles in the binade \<open>e\<close> of \<open>x\<close> (from
  \<open>- 1022\<close> on), with a significand \<open>m\<close> of at most 53 bits or \<open>m = 2 ^ 53\<close>, the first
  double of the next binade; it lies within half the spacing of \<open>x\<close>; and it leaves an
  integer below \<open>2 ^ 53\<close> in magnitude as it is.
\<close>

lemma pow2_le_of_nat: "2 ^ j \<le> n \<Longrightarrow> (2::rat) ^ j \<le> of_nat n"
proof -
  assume "2 ^ j \<le> n"
  then have "(of_nat (2 ^ j) :: rat) \<le> of_nat n" by (simp only: of_nat_le_iff)
  then show ?thesis by simp
qed

lemma of_nat_less_pow2: "n < 2 ^ j \<Longrightarrow> (of_nat n :: rat) + 1 \<le> 2 ^ j"
proof -
  assume "n < 2 ^ j"
  then have "Suc n \<le> 2 ^ j" by simp
  then have "(of_nat (Suc n) :: rat) \<le> of_nat (2 ^ j)" by (simp only: of_nat_le_iff)
  then show ?thesis by simp
qed

lemma floorlog_pos_bounds:
  assumes "0 < n"
  shows "0 < floorlog 2 n" "2 ^ (floorlog 2 n - 1) \<le> n" "n < 2 ^ floorlog 2 n"
proof -
  from floorlog_bounds [of n 2] assms
  show "2 ^ (floorlog 2 n - 1) \<le> n" "n < 2 ^ floorlog 2 n" by simp_all
  show "0 < floorlog 2 n" using assms by (simp add: floorlog_def)
qed

lemma powi_pred: "0 < k \<Longrightarrow> (2::rat) powi (int k - 1) = 2 ^ (k - 1)"
proof -
  assume k: "0 < k"
  then have "int k - 1 = int (k - 1)" by simp
  then show ?thesis by (simp only: power_int_of_nat)
qed

lemma binade_ge1:
  fixes x :: rat
  assumes "1 \<le> \<bar>x\<bar>"
  shows "2 powi binade x \<le> \<bar>x\<bar> \<and> \<bar>x\<bar> < 2 powi (binade x + 1)"
proof -
  define n where "n = nat \<lfloor>\<bar>x\<bar>\<rfloor>"
  define k where "k = floorlog 2 n"
  have fl: "1 \<le> \<lfloor>\<bar>x\<bar>\<rfloor>" using assms by (simp add: le_floor_iff)
  then have n0: "0 < n" by (simp add: n_def)
  have nfl: "(of_nat n :: rat) = of_int \<lfloor>\<bar>x\<bar>\<rfloor>"
    using fl by (simp add: n_def)
  from floor_correct [of "\<bar>x\<bar>"]
  have nx: "of_nat n \<le> \<bar>x\<bar>" "\<bar>x\<bar> < of_nat n + 1"
    unfolding nfl by simp_all
  note b = floorlog_pos_bounds [OF n0, folded k_def]
  have bin: "binade x = int k - 1" using assms by (simp add: binade_def n_def k_def)
  have e2: "(2::rat) powi (int k - 1 + 1) = 2 ^ k"
    by (simp add: power_int_of_nat)
  from pow2_le_of_nat [OF b(2)] nx(1) have lo: "(2::rat) ^ (k - 1) \<le> \<bar>x\<bar>"
    by (rule order_trans)
  from nx(2) of_nat_less_pow2 [OF b(3)] have hi: "\<bar>x\<bar> < 2 ^ k"
    by (rule less_le_trans)
  from lo hi show ?thesis unfolding bin e2 powi_pred [OF b(1)] by simp
qed


lemma powi_neg: "(2::rat) powi (- int k) = 1 / 2 ^ k"
  by (simp add: power_int_minus inverse_eq_divide)

lemma powi_neg_succ: "0 < k \<Longrightarrow> (2::rat) powi (- int k + 1) = 1 / 2 ^ (k - 1)"
proof -
  assume k: "0 < k"
  then have "- int k + 1 = - int (k - 1)" by simp
  then show ?thesis by (simp only: powi_neg)
qed

lemma binade_lt1:
  fixes x :: rat
  assumes "x \<noteq> 0" and "\<bar>x\<bar> < 1"
  shows "2 powi binade x \<le> \<bar>x\<bar> \<and> \<bar>x\<bar> < 2 powi (binade x + 1)"
proof -
  define y where "y = 1 / \<bar>x\<bar>"
  define n where "n = nat (\<lceil>y\<rceil> - 1)"
  define k where "k = floorlog 2 n"
  have xp: "0 < \<bar>x\<bar>" using assms(1) by simp
  have y1: "1 < y" using xp assms(2) by (simp add: y_def)
  then have c2: "2 \<le> \<lceil>y\<rceil>" by (simp add: le_ceiling_iff)
  then have n0: "0 < n" by (simp add: n_def)
  have nc: "(of_nat n :: rat) = of_int \<lceil>y\<rceil> - 1"
    using c2 by (simp add: n_def)
  from ceiling_correct [of y]
  have ny: "of_nat n < y" "y \<le> of_nat n + 1"
    unfolding nc by simp_all
  note b = floorlog_pos_bounds [OF n0, folded k_def]
  have bin: "binade x = - int k" using assms(2) by (simp add: binade_def n_def k_def y_def)
  from pow2_le_of_nat [OF b(2)] ny(1) have lo: "(2::rat) ^ (k - 1) < y"
    by (rule le_less_trans)
  from ny(2) of_nat_less_pow2 [OF b(3)] have hi: "y \<le> 2 ^ k"
    by (rule order_trans)
  have p1: "(0::rat) < 2 ^ (k - 1)" and p2: "(0::rat) < 2 ^ k" by simp_all
  from hi have "1 / 2 ^ k \<le> \<bar>x\<bar>"
    unfolding y_def using xp p2 by (simp add: field_simps)
  moreover from lo have "\<bar>x\<bar> < 1 / 2 ^ (k - 1)"
    unfolding y_def using xp p1 by (simp add: field_simps)
  ultimately show ?thesis unfolding bin powi_neg powi_neg_succ [OF b(1)] by simp
qed

lemma binade_bounds:
  fixes x :: rat
  assumes "x \<noteq> 0"
  shows "2 powi binade x \<le> \<bar>x\<bar> \<and> \<bar>x\<bar> < 2 powi (binade x + 1)"
  using binade_ge1 [of x] binade_lt1 [OF assms] by (cases "1 \<le> \<bar>x\<bar>") simp_all


lemma nearest_int_error:
  fixes y :: rat and f :: int
  assumes "of_int f \<le> y" and "y < of_int f + 1"
  shows "\<bar>of_int (if y - of_int f < 1 / 2 then f
                     else if 1 / 2 < y - of_int f then f + 1
                     else if even f then f else f + 1) - y\<bar> \<le> 1 / 2"
  using assms by (auto simp: abs_if)

lemma round_half_even_error: "\<bar>of_int (round_half_even y) - y\<bar> \<le> 1 / 2"
proof -
  from floor_correct [of y] have "of_int \<lfloor>y\<rfloor> \<le> y" "y < of_int \<lfloor>y\<rfloor> + 1" by simp_all
  then show ?thesis
    unfolding round_half_even_def Let_def by (rule nearest_int_error)
qed

lemma round_double_nearest:
  fixes x :: rat
  assumes "x \<noteq> 0"
  shows "\<exists>m. round_double x = of_int m * 2 powi (max (binade x) (- 1022) - 52) \<and>
           \<bar>round_double x - x\<bar> \<le> 2 powi (max (binade x) (- 1022) - 52) / 2 \<and>
           \<bar>m\<bar> \<le> 2 ^ 53"
proof -
  define e where "e = max (binade x) (- 1022)"
  define ulp :: rat where "ulp = 2 powi (e - 52)"
  define m where "m = round_half_even (x / ulp)"
  have up: "0 < ulp" by (simp add: ulp_def)
  have rd: "round_double x = of_int m * ulp"
    using assms by (simp add: round_double_def Let_def e_def ulp_def m_def)
  from round_half_even_error [of "x / ulp"]
  have err: "\<bar>of_int m - x / ulp\<bar> \<le> 1 / 2" by (simp add: m_def)
  have "of_int m * ulp - x = (of_int m - x / ulp) * ulp"
    using up by (simp add: field_simps)
  then have "\<bar>of_int m * ulp - x\<bar> = \<bar>of_int m - x / ulp\<bar> * ulp"
    using up by (simp add: abs_mult)
  also have "\<dots> \<le> 1 / 2 * ulp"
    using err up by (simp only: mult_le_cancel_right_pos)
  finally have near: "\<bar>round_double x - x\<bar> \<le> ulp / 2" by (simp add: rd)
  from binade_bounds [OF assms] have "\<bar>x\<bar> < 2 powi (binade x + 1)" by simp
  also have "\<dots> \<le> 2 powi (e + 1)"
    by (rule power_int_increasing) (simp_all add: e_def)
  finally have "\<bar>x\<bar> < 2 powi (e + 1)" .
  moreover have "(2::rat) powi (e + 1) = 2 ^ 53 * ulp"
  proof -
    have "e + 1 = 53 + (e - 52)" by simp
    then have "(2::rat) powi (e + 1) = 2 powi (53 + (e - 52))" by (rule arg_cong)
    also have "\<dots> = 2 powi 53 * 2 powi (e - 52)" by (rule power_int_add) simp
    finally show ?thesis by (simp add: ulp_def)
  qed
  ultimately have "\<bar>x\<bar> < 2 ^ 53 * ulp" by simp
  then have "\<bar>x\<bar> / ulp < 2 ^ 53" using up by (simp add: field_simps)
  then have "\<bar>x / ulp\<bar> < 2 ^ 53" using up by simp
  with err have "\<bar>(of_int m :: rat)\<bar> < 2 ^ 53 + 1" by linarith
  then have "\<bar>(of_int m :: rat)\<bar> < of_int (2 ^ 53 + 1)" by simp
  then have "\<bar>m\<bar> < 2 ^ 53 + 1" by (simp only: of_int_abs [symmetric] of_int_less_iff)
  then have "\<bar>m\<bar> \<le> 2 ^ 53" by simp
  with rd near show ?thesis unfolding ulp_def e_def by blast
qed


lemma round_half_even_of_int: "round_half_even (of_int i) = i"
  by (simp add: round_half_even_def)

lemma round_double_of_int:
  assumes "\<bar>i\<bar> < 2 ^ 53"
  shows "round_double (of_int i) = of_int i"
proof (cases "i = 0")
  case True
  then show ?thesis by (simp add: round_double_def)
next
  case False
  define x :: rat where "x = of_int i"
  define b where "b = binade x"
  have x0: "x \<noteq> 0" using False by (simp add: x_def)
  have x1: "1 \<le> \<bar>x\<bar>" using False by (simp add: x_def flip: of_int_abs)
  have x53: "\<bar>x\<bar> < 2 powi 53"
    using assms by (simp add: x_def flip: of_int_abs)
  from binade_bounds [OF x0] have lo: "2 powi b \<le> \<bar>x\<bar>" and hi: "\<bar>x\<bar> < 2 powi (b + 1)"
    by (simp_all add: b_def)
  from lo x53 have "(2::rat) powi b < 2 powi 53" by (rule le_less_trans)
  then have "b < 53" by (rule power_int_le_imp_less_exp [rotated]) simp_all
  then have b52: "b \<le> 52" by simp
  have b0: "0 \<le> b"
  proof (rule ccontr)
    assume "\<not> 0 \<le> b"
    then have "b + 1 \<le> 0" by simp
    then have "(2::rat) powi (b + 1) \<le> 2 powi 0" by (rule power_int_increasing) simp
    with hi x1 show False by simp
  qed
  define j where "j = nat (52 - b)"
  have e: "max b (- 1022) - 52 = - int j" using b0 b52 by (simp add: j_def)
  have ulp: "(2::rat) powi (max b (- 1022) - 52) = 1 / 2 ^ j"
    unfolding e by (simp add: power_int_minus inverse_eq_divide)
  have q: "x / (1 / 2 ^ j) = of_int (i * 2 ^ j)" by (simp add: x_def)
  have "round_double x = of_int (round_half_even (x / (1 / 2 ^ j))) * (1 / 2 ^ j)"
    using x0 by (simp add: round_double_def Let_def ulp flip: b_def)
  also have "\<dots> = of_int (i * 2 ^ j) * (1 / 2 ^ j)"
    unfolding q round_half_even_of_int ..
  also have "\<dots> = x" by (simp add: x_def)
  finally show ?thesis by (simp add: x_def)
qed

text \<open>The evaluation of the rounding on numerals.\<close>

lemma floor_numeral_div:
  "\<lfloor>numeral a / numeral b :: rat\<rfloor> = numeral a div numeral b"
  "\<lfloor>- numeral a / numeral b :: rat\<rfloor> = - numeral a div numeral b"
  "\<lfloor>1 / numeral b :: rat\<rfloor> = 1 div numeral b"
  "\<lfloor>- 1 / numeral b :: rat\<rfloor> = - 1 div numeral b"
  using floor_divide_of_int_eq [of "numeral a" "numeral b", where ?'a = rat]
    floor_divide_of_int_eq [of "- numeral a" "numeral b", where ?'a = rat]
    floor_divide_of_int_eq [of 1 "numeral b", where ?'a = rat]
    floor_divide_of_int_eq [of "- 1" "numeral b", where ?'a = rat]
  by simp_all

lemma ceiling_numeral_div:
  "\<lceil>numeral a / numeral b :: rat\<rceil> = - (- numeral a div numeral b)"
  "\<lceil>1 / numeral b :: rat\<rceil> = - (- 1 div numeral b)"
  using floor_numeral_div(2) [of a b] floor_numeral_div(4) [of b] by (simp_all add: ceiling_def)

lemma floorlog_numeral_eval:
  "floorlog 2 (numeral k) = Suc (floorlog 2 (numeral k div 2))"
  "floorlog 2 0 = 0"
  "floorlog 2 1 = 1"
  "floorlog 2 (Suc 0) = 1"
  by (subst compute_floorlog, simp)+

lemmas fp_eval = round_double_def binade_def round_half_even_def Let_def
  floorlog_numeral_eval floor_numeral_div ceiling_numeral_div power_int_minus

text \<open>
  The doubles of some decimal literals: \<open>0.1\<close> is \<open>0x3FB999999999999A\<close> and \<open>3.6\<close> is
  \<open>0x400CCCCCCCCCCCCD\<close>; an integer of fewer than 54 bits is a double; a tie goes to the
  even significand.
\<close>

lemma round_double_examples:
  "round_double (1 / 10) = 3602879701896397 / 36028797018963968"
  "round_double (36 / 10) = 8106479329266893 / 2251799813685248"
  "round_double 1704067200000 = 1704067200000"
  "round_double (- 3) = - 3"
  "round_double 9007199254740993 = 9007199254740992"
  "round_double 9007199254740995 = 9007199254740996"
  by (simp_all add: fp_eval)

section \<open>Properties of the readers\<close>

lemma repeat_r_numeral:
  "repeat_r (numeral k) body =
     bind_r body (\<lambda>x. bind_r (repeat_r (pred_numeral k) body) (\<lambda>xs. return_r (x # xs)))"
  by (simp add: numeral_eq_Suc)

lemma repeat_r_1:
  "repeat_r 1 body =
     bind_r body (\<lambda>x. bind_r (repeat_r 0 body) (\<lambda>xs. return_r (x # xs)))"
  unfolding One_nat_def by simp

lemmas reader_eval = decodeCodec8_def decode_def decode_rest_def decodeAVLRecord_def
  decodeIOElementStandard_def decodeIOElementExtended_def fixed_element_def nx_element_def
  fixed_value_def bind_r_def return_r_def throw_r_def lift_r_def
  readBytes_def readUInt8_def readUInt16_def readUInt32_def readInt32_def readUInt64_def
  buf_readUInt8_def buf_readUInt16BE_def buf_readUInt32BE_def buf_readInt32BE_def
  buf_readUIntBE_def be_value_def slice_def repeat_r_numeral repeat_r_1 fp_eval

lemmas string_eval = dec_string.simps hex_digit_def to_hex_def to_ascii_def strip_nul_def
  char_of_def bit_Suc_0_iff getIOName_def ioNames_def

lemma take_eq_length: "take n d' = take n d \<Longrightarrow> n \<le> length d \<Longrightarrow> n \<le> length d'"
proof -
  assume eq: "take n d' = take n d" and le: "n \<le> length d"
  have "length (take n d') = length (take n d)" using eq by simp
  with le show ?thesis by simp
qed

lemma take_eq_mono: "take n d' = take n d \<Longrightarrow> m \<le> n \<Longrightarrow> take m d' = take m d"
  by (metis min.absorb1 take_take)

lemma slice_take: "e \<le> n \<Longrightarrow> slice (take n d) s e = slice d s e"
  by (simp add: slice_def drop_take min_def)

lemma slice_local: "take e d' = take e d \<Longrightarrow> slice d' s e = slice d s e"
  by (metis slice_take order_refl)

lemma nth_local: "take (Suc i) d' = take (Suc i) d \<Longrightarrow> d' ! i = d ! i"
  by (metis lessI nth_take)

lemma local_return [simp]: "local_r (return_r v)"
  by (simp add: local_r_def return_r_def)

lemma local_throw [simp]: "local_r (throw_r e)"
  by (simp add: local_r_def throw_r_def)

lemma local_lift [simp]: "local_r (lift_r x)"
  by (simp add: local_r_def lift_r_def split: sum.splits)

lemma local_bind:
  assumes m: "local_r m" and f: "\<And>v. local_r (f v)"
  shows "local_r (bind_r m f)"
  unfolding local_r_def
proof (intro allI impI, elim conjE)
  fix d off w off2
  assume off: "off \<le> length d" and run: "bind_r m f d off = Inr (w, off2)"
  from run obtain v off1 where r1: "m d off = Inr (v, off1)" and r2: "f v d off1 = Inr (w, off2)"
    by (auto simp: bind_r_def split: sum.splits)
  from m off r1 have b1: "off \<le> off1" "off1 \<le> length d"
    and l1: "\<And>d'. take off1 d' = take off1 d \<Longrightarrow> m d' off = Inr (v, off1)"
    unfolding local_r_def by blast+
  from f [of v] b1 r2 have b2: "off1 \<le> off2" "off2 \<le> length d"
    and l2: "\<And>d'. take off2 d' = take off2 d \<Longrightarrow> f v d' off1 = Inr (w, off2)"
    unfolding local_r_def by blast+
  have "bind_r m f d' off = Inr (w, off2)" if eq: "take off2 d' = take off2 d" for d'
  proof -
    from eq b2(1) have "take off1 d' = take off1 d" by (rule take_eq_mono)
    then have "m d' off = Inr (v, off1)" by (rule l1)
    moreover from eq have "f v d' off1 = Inr (w, off2)" by (rule l2)
    ultimately show ?thesis by (simp add: bind_r_def)
  qed
  with b1 b2 show "off \<le> off2 \<and> off2 \<le> length d \<and>
      (\<forall>d'. take off2 d' = take off2 d \<longrightarrow> bind_r m f d' off = Inr (w, off2))"
    by auto
qed

lemma readBytes_Inr:
  "readBytes n d off = Inr (v, off') \<longleftrightarrow>
     off + n \<le> length d \<and> v = slice d off (off + n) \<and> off' = off + n"
  by (auto simp: readBytes_def)

lemma buf_readUIntBE_local:
  "take (off + n) d' = take (off + n) d \<Longrightarrow> off + n \<le> length d \<Longrightarrow>
   buf_readUIntBE n d' off = buf_readUIntBE n d off"
  using take_eq_length [of "off + n" d' d] slice_local [of "off + n" d' d off]
  by (simp add: buf_readUIntBE_def)

lemma readUInt8_Inr:
  "readUInt8 d off = Inr (v, off') \<longleftrightarrow>
     off + 1 \<le> length d \<and> v = unat (d ! off) \<and> off' = off + 1"
  by (auto simp: readUInt8_def buf_readUInt8_def)

lemma readUInt16_Inr:
  "readUInt16 d off = Inr (v, off') \<longleftrightarrow>
     off + 2 \<le> length d \<and> v = be_value (slice d off (off + 2)) \<and> off' = off + 2"
  by (auto simp: readUInt16_def buf_readUInt16BE_def buf_readUIntBE_def)

lemma readUInt32_Inr:
  "readUInt32 d off = Inr (v, off') \<longleftrightarrow>
     off + 4 \<le> length d \<and> v = be_value (slice d off (off + 4)) \<and> off' = off + 4"
  by (auto simp: readUInt32_def buf_readUInt32BE_def buf_readUIntBE_def)

lemma local_rI:
  assumes "\<And>d off v off'. m d off = Inr (v, off') \<Longrightarrow> off \<le> off' \<and> off' \<le> length d"
    and "\<And>d d' off v off'. m d off = Inr (v, off') \<Longrightarrow> take off' d' = take off' d \<Longrightarrow>
           m d' off = Inr (v, off')"
  shows "local_r m"
  unfolding local_r_def using assms by blast

lemma local_readBytes [simp]: "local_r (readBytes n)"
proof (rule local_rI)
  fix d d' :: buffer and off off' v
  assume "readBytes n d off = Inr (v, off')" and "take off' d' = take off' d"
  then show "readBytes n d' off = Inr (v, off')"
    using take_eq_length [of off' d' d] slice_local [of off' d' d off]
    by (simp add: readBytes_Inr)
qed (simp add: readBytes_Inr)

lemma local_readUInt8 [simp]: "local_r readUInt8"
proof (rule local_rI)
  fix d d' :: buffer and off off' v
  assume "readUInt8 d off = Inr (v, off')" and "take off' d' = take off' d"
  then show "readUInt8 d' off = Inr (v, off')"
    using take_eq_length [of off' d' d] nth_local [of off d' d]
    by (simp add: readUInt8_Inr)
qed (simp add: readUInt8_Inr)

lemma local_readUInt16 [simp]: "local_r readUInt16"
proof (rule local_rI)
  fix d d' :: buffer and off off' v
  assume "readUInt16 d off = Inr (v, off')" and "take off' d' = take off' d"
  then show "readUInt16 d' off = Inr (v, off')"
    using take_eq_length [of off' d' d] slice_local [of off' d' d off]
    by (simp add: readUInt16_Inr)
qed (simp add: readUInt16_Inr)

lemma local_readUInt32 [simp]: "local_r readUInt32"
proof (rule local_rI)
  fix d d' :: buffer and off off' v
  assume "readUInt32 d off = Inr (v, off')" and "take off' d' = take off' d"
  then show "readUInt32 d' off = Inr (v, off')"
    using take_eq_length [of off' d' d] slice_local [of off' d' d off]
    by (simp add: readUInt32_Inr)
qed (simp add: readUInt32_Inr)

lemma readInt32_Inr:
  "readInt32 d off = Inr (v, off') \<longleftrightarrow>
     off + 4 \<le> length d \<and> off' = off + 4 \<and>
     v = (let u = be_value (slice d off (off + 4)) in if u \<ge> 2 ^ 31 then int u - 2 ^ 32 else int u)"
  by (auto simp: readInt32_def buf_readInt32BE_def buf_readUIntBE_def Let_def)

lemma local_readInt32 [simp]: "local_r readInt32"
proof (rule local_rI)
  fix d d' :: buffer and off off' v
  assume "readInt32 d off = Inr (v, off')" and "take off' d' = take off' d"
  then show "readInt32 d' off = Inr (v, off')"
    using take_eq_length [of off' d' d] slice_local [of off' d' d off]
    by (simp add: readInt32_Inr)
qed (simp add: readInt32_Inr)

lemma readUInt64_Inr:
  "readUInt64 d off = Inr (v, off') \<longleftrightarrow>
     off + 8 \<le> length d \<and> off' = off + 8 \<and>
     v = be_value (slice d off (off + 4)) * 4294967296 + be_value (slice d (off + 4) (off + 8))"
  by (auto simp: readUInt64_def buf_readUInt32BE_def buf_readUIntBE_def add.assoc)

lemma local_readUInt64 [simp]: "local_r readUInt64"
proof (rule local_rI)
  fix d d' :: buffer and off off' v
  assume a: "readUInt64 d off = Inr (v, off')" and t: "take off' d' = take off' d"
  from a have o: "off' = off + 8" by (simp add: readUInt64_Inr)
  from t have "take (off + 4) d' = take (off + 4) d"
    by (rule take_eq_mono) (simp add: o)
  then show "readUInt64 d' off = Inr (v, off')"
    using a t take_eq_length [of off' d' d] slice_local [of off' d' d "off + 4"]
      slice_local [of "off + 4" d' d off]
    by (simp add: readUInt64_Inr)
qed (simp add: readUInt64_Inr)

lemma local_if [simp]: "local_r a \<Longrightarrow> local_r b \<Longrightarrow> local_r (if c then a else b)"
  by simp

lemma local_repeat [simp]: "local_r body \<Longrightarrow> local_r (repeat_r n body)"
  by (induction n) (auto intro!: local_bind)

lemma local_fixed_element [simp]: "local_r rid \<Longrightarrow> local_r (fixed_element rid sz)"
  unfolding fixed_element_def by (intro local_bind local_return local_lift local_readBytes)

lemma local_nx_element [simp]: "local_r nx_element"
  unfolding nx_element_def by (intro local_bind local_return local_readBytes local_readUInt16)

lemma local_decodeIOElementStandard [simp]: "local_r decodeIOElementStandard"
  unfolding decodeIOElementStandard_def
  by (intro local_bind local_return local_repeat local_fixed_element local_readUInt8)

lemma local_decodeIOElementExtended [simp]: "local_r decodeIOElementExtended"
  unfolding decodeIOElementExtended_def
  by (intro local_bind local_return local_repeat local_fixed_element local_nx_element
        local_readUInt16)

lemma local_decodeAVLRecord [simp]: "local_r (decodeAVLRecord ext)"
  unfolding decodeAVLRecord_def
  by (intro local_bind local_if local_return local_throw local_readUInt8 local_readUInt16
        local_readInt32 local_readUInt64 local_decodeIOElementStandard
        local_decodeIOElementExtended)

lemma local_decode_records [simp]: "local_r decode_records"
  unfolding decode_records_def
  by (intro local_bind local_if local_return local_throw local_repeat local_decodeAVLRecord
        local_readUInt8 local_readUInt32)

lemma decode_split:
  "decode d off =
     bind_r decode_records (\<lambda>h. bind_r readUInt8 (\<lambda>n2. bind_r readUInt32 (\<lambda>c.
       return_r (mk_packet h n2 c)))) d off"
  by (simp add: decode_def decode_records_def decode_rest_def mk_packet_def bind_r_def
        return_r_def throw_r_def split: sum.splits prod.splits)

lemma bind_r_Inr:
  "bind_r m f d off = Inr (w, o2) \<longleftrightarrow> (\<exists>v o1. m d off = Inr (v, o1) \<and> f v d o1 = Inr (w, o2))"
  by (auto simp: bind_r_def split: sum.splits)

lemma decode_Inr:
  "decode d 0 = Inr (p, k) \<longleftrightarrow>
     (\<exists>h o1. decode_records d 0 = Inr (h, o1) \<and> k = o1 + 5 \<and> k \<le> length d \<and>
        p = mk_packet h (unat (d ! o1)) (be_value (slice d (o1 + 1) (o1 + 5))))"
proof -
  have *: "o1 + 1 + 4 = o1 + 5" for o1 :: nat by simp
  show ?thesis
    unfolding decode_split bind_r_Inr readUInt8_Inr readUInt32_Inr return_r_def * 
    by (auto simp: add.commute)
qed

lemma decode_records_local:
  assumes "decode_records d 0 = Inr (h, o1)" and "take o1 d' = take o1 d"
  shows "decode_records d' 0 = Inr (h, o1)"
  using local_decode_records assms unfolding local_r_def by blast

lemma decode_records_bound:
  assumes "decode_records d 0 = Inr (h, o1)"
  shows "o1 \<le> length d"
  using local_decode_records assms unfolding local_r_def by blast

lemma decode_crc_transfer:
  assumes len: "length b1 = length b2"
    and eq: "take (length b1 - 4) b1 = take (length b2 - 4) b2"
    and ok: "decode b1 0 = Inr (p1, k)"
  shows "\<exists>p2. decode b2 0 = Inr (p2, k) \<and> p2 = p1\<lparr>crc := crc p2\<rparr>"
proof -
  from ok obtain h o1 where rec: "decode_records b1 0 = Inr (h, o1)"
    and k: "k = o1 + 5" "k \<le> length b1"
    and p1: "p1 = mk_packet h (unat (b1 ! o1)) (be_value (slice b1 (o1 + 1) (o1 + 5)))"
    unfolding decode_Inr by blast
  from k have le: "o1 + 1 \<le> length b1 - 4" by simp
  from eq len have eq': "take (length b1 - 4) b2 = take (length b1 - 4) b1" by simp
  have t1: "take (o1 + 1) b2 = take (o1 + 1) b1" using eq' le by (rule take_eq_mono)
  then have t0: "take o1 b2 = take o1 b1" by (rule take_eq_mono) simp
  have "decode_records b2 0 = Inr (h, o1)" using rec t0 by (rule decode_records_local)
  moreover have "b2 ! o1 = b1 ! o1" using t1 nth_local [of o1 b2 b1] by simp
  ultimately have "decode b2 0 =
      Inr (mk_packet h (unat (b1 ! o1)) (be_value (slice b2 (o1 + 1) (o1 + 5))), k)"
    unfolding decode_Inr using k len by auto
  then show ?thesis
    by (cases h) (auto simp: p1 mk_packet_def)
qed

lemma decodeCodec8_Inr: "decodeCodec8 b = Inr p \<longleftrightarrow> (\<exists>k. decode b 0 = Inr (p, k))"
  by (auto simp: decodeCodec8_def split: sum.splits)

lemma decode_crc_value:
  assumes "decode b 0 = Inr (p, k)"
  shows "4 \<le> k \<and> k \<le> length b \<and> crc p = be_value (slice b (k - 4) k)"
proof -
  from assms obtain h o1 where k: "k = o1 + 5" "k \<le> length b"
    and p: "p = mk_packet h (unat (b ! o1)) (be_value (slice b (o1 + 1) (o1 + 5)))"
    unfolding decode_Inr by blast
  have "k - 4 = o1 + 1" using k by simp
  then show ?thesis using k
    by (cases h) (simp add: p mk_packet_def)
qed

lemma local_decode [simp]: "local_r decode"
  unfolding decode_def decode_rest_def
  by (intro local_bind local_if local_return local_throw local_repeat local_decodeAVLRecord
        local_readUInt8 local_readUInt32)

lemma safe_rI: "(\<And>d off. m d off \<noteq> Inl ERR_OUT_OF_RANGE) \<Longrightarrow> safe_r m"
  by (simp add: safe_r_def)

lemma safe_return [simp]: "safe_r (return_r v)"
  by (simp add: safe_r_def return_r_def)

lemma safe_throw [simp]: "e \<noteq> ERR_OUT_OF_RANGE \<Longrightarrow> safe_r (throw_r e)"
  by (simp add: safe_r_def throw_r_def)

lemma safe_bind:
  assumes "safe_r m" and "\<And>v. safe_r (f v)"
  shows "safe_r (bind_r m f)"
  using assms by (auto simp: safe_r_def bind_r_def split: sum.splits)

lemma safe_if [simp]: "safe_r a \<Longrightarrow> safe_r b \<Longrightarrow> safe_r (if c then a else b)"
  by simp

lemma safe_readBytes [simp]: "safe_r (readBytes n)"
  by (simp add: safe_r_def readBytes_def)

lemma safe_readUInt8 [simp]: "safe_r readUInt8"
  by (simp add: safe_r_def readUInt8_def buf_readUInt8_def)

lemma safe_readUInt16 [simp]: "safe_r readUInt16"
  by (simp add: safe_r_def readUInt16_def buf_readUInt16BE_def buf_readUIntBE_def)

lemma safe_readUInt32 [simp]: "safe_r readUInt32"
  by (simp add: safe_r_def readUInt32_def buf_readUInt32BE_def buf_readUIntBE_def)

lemma safe_readInt32 [simp]: "safe_r readInt32"
  by (simp add: safe_r_def readInt32_def buf_readInt32BE_def buf_readUIntBE_def)

lemma safe_readUInt64 [simp]: "safe_r readUInt64"
  by (simp add: safe_r_def readUInt64_def buf_readUInt32BE_def buf_readUIntBE_def)

lemma safe_repeat [simp]: "safe_r body \<Longrightarrow> safe_r (repeat_r n body)"
  by (induction n) (auto intro!: safe_bind)

lemma length_slice: "e \<le> length d \<Longrightarrow> length (slice d s e) = e - s"
  by (simp add: slice_def)

lemma fixed_value_safe:
  "sz \<in> {1, 2, 4, 8} \<Longrightarrow> length r = sz \<Longrightarrow> fixed_value sz r \<noteq> Inl ERR_OUT_OF_RANGE"
  by (auto simp: fixed_value_def buf_readUInt8_def buf_readUInt16BE_def buf_readUInt32BE_def
        buf_readUIntBE_def)

lemma safe_fixed_element [simp]:
  assumes "safe_r rid" and "sz \<in> {1, 2, 4, 8}"
  shows "safe_r (fixed_element rid sz)"
proof (rule safe_rI)
  fix d off
  show "fixed_element rid sz d off \<noteq> Inl ERR_OUT_OF_RANGE"
  proof (cases "rid d off")
    case (Inl e)
    with assms(1) show ?thesis by (auto simp: fixed_element_def bind_r_def safe_r_def)
  next
    case (Inr a)
    obtain i o1 where a: "a = (i, o1)" by (cases a)
    show ?thesis
    proof (cases "o1 + sz > length d")
      case True
      with Inr a show ?thesis by (simp add: fixed_element_def bind_r_def readBytes_def)
    next
      case False
      then have "length (slice d o1 (o1 + sz)) = sz" by (simp add: length_slice)
      with assms(2) have "fixed_value sz (slice d o1 (o1 + sz)) \<noteq> Inl ERR_OUT_OF_RANGE"
        by (rule fixed_value_safe)
      with Inr a False show ?thesis
        by (auto simp: fixed_element_def bind_r_def readBytes_def lift_r_def return_r_def
              split: sum.splits)
    qed
  qed
qed

lemma safe_nx_element [simp]: "safe_r nx_element"
  unfolding nx_element_def by (intro safe_bind safe_return safe_readBytes safe_readUInt16)

lemma safe_decodeIOElementStandard [simp]: "safe_r decodeIOElementStandard"
  unfolding decodeIOElementStandard_def
  by (intro safe_bind safe_return safe_repeat safe_fixed_element safe_readUInt8) simp_all

lemma safe_decodeIOElementExtended [simp]: "safe_r decodeIOElementExtended"
  unfolding decodeIOElementExtended_def
  by (intro safe_bind safe_return safe_repeat safe_fixed_element safe_nx_element
        safe_readUInt16) simp_all

lemma safe_decodeAVLRecord [simp]: "safe_r (decodeAVLRecord ext)"
  unfolding decodeAVLRecord_def
  by (intro safe_bind safe_if safe_return safe_throw safe_readUInt8 safe_readUInt16
        safe_readInt32 safe_readUInt64 safe_decodeIOElementStandard
        safe_decodeIOElementExtended) simp

lemma safe_decode [simp]: "safe_r decode"
  unfolding decode_def decode_rest_def
  by (intro safe_bind safe_if safe_return safe_throw safe_repeat safe_decodeAVLRecord
        safe_readUInt8 safe_readUInt32) simp

lemma decodeCodec8_in_bounds: "decodeCodec8 b \<noteq> Inl ERR_OUT_OF_RANGE"
  using safe_decode by (auto simp: decodeCodec8_def safe_r_def split: sum.splits)

lemma decode_prefix_fails:
  assumes w: "whole_frame f" and n: "n < length f"
  shows "isl (decode (take n f) 0)"
proof (rule ccontr)
  assume "\<not> isl (decode (take n f) 0)"
  then obtain p k where ok: "decode (take n f) 0 = Inr (p, k)"
    by (cases "decode (take n f) 0") auto
  with local_decode have k: "k \<le> length (take n f)"
    and loc: "\<And>d'. take k d' = take k (take n f) \<Longrightarrow> decode d' 0 = Inr (p, k)"
    unfolding local_r_def by (metis le0)+
  from k n have "k \<le> n" by simp
  then have "take k f = take k (take n f)" by (simp add: min_def)
  then have "decode f 0 = Inr (p, k)" by (rule loc)
  with w have "k = length f" by (simp add: whole_frame_def)
  with k n show False by simp
qed

section \<open>Properties of the scores\<close>

lemmas score_eval = driverScore_step_def normalizedPenalty_def totalRawPenalty_def
  rawPenalties_def severeEvents_def durationFactor_def js_round_def floor_numeral_div
  efficiencyScore_step_def idlePenalty_of_def idleMinutes_of_def

lemma driverScore_step_range:
  "0 \<le> driverScore_step hb ha hc m \<and> driverScore_step hb ha hc m \<le> 100"
  by (simp add: driverScore_step_def)

lemma efficiencyScore_step_range:
  "0 \<le> efficiencyScore_step rnd i \<and> efficiencyScore_step rnd i \<le> 100"
  by (simp add: efficiencyScore_step_def)

text \<open>
  The scores of a result in terms of the events and the duration it reports: the driver
  score is the score of STEP 4, lowered to 95 when the confidence is low.
\<close>

lemma calculateDriverBehavior_Some:
  assumes "calculateDriverBehavior rnd trs = Some res"
  shows "driverScore res =
           (if confidence_level res = ''low'' \<and>
               driverScore_step (events_hardBraking res) (events_hardAcceleration res)
                 (events_harshCornering res) (analysis_tripDurationMinutes res) > 95
            then 95
            else driverScore_step (events_hardBraking res) (events_hardAcceleration res)
                   (events_harshCornering res) (analysis_tripDurationMinutes res))"
    and "\<exists>idle. efficiencyScore res = efficiencyScore_step rnd idle"
proof -
  from assms obtain acc ev bx by' where res: "res = behavior_result rnd trs acc ev bx by'"
    by (auto simp: calculateDriverBehavior_def Let_def split: if_splits)
  show "driverScore res =
           (if confidence_level res = ''low'' \<and>
               driverScore_step (events_hardBraking res) (events_hardAcceleration res)
                 (events_harshCornering res) (analysis_tripDurationMinutes res) > 95
            then 95
            else driverScore_step (events_hardBraking res) (events_hardAcceleration res)
                   (events_harshCornering res) (analysis_tripDurationMinutes res))"
    unfolding res behavior_result_def Let_def by simp
  show "\<exists>idle. efficiencyScore res = efficiencyScore_step rnd idle"
    unfolding res behavior_result_def Let_def by simp blast
qed

section \<open>The example trip with a hard brake\<close>

lemma accel_rec_simps:
  "hasAccel (accel_rec t x spd)"
  "rec_timestamp (accel_rec t x spd) = t"
  "rec_gps (accel_rec t x spd) = None"
  "\<not> has_satellites (accel_rec t x spd)"
  "totalOdometer (accel_rec t x spd) = Some 1000"
  "ignition (accel_rec t x spd) = Some 1"
  "movement (accel_rec t x spd) = Some 1"
  "obdEngineRpm (accel_rec t x spd) = None"
  "speed_of (accel_rec t x 40) = 40"
  "speed_of (accel_rec t x 0) = 0"
  "accelerometerX (accel_rec t x spd) = Some x"
  "accelerometerY (accel_rec t x spd) = Some 0"
  by (simp_all add: accel_rec_def hasAccel_def has_satellites_def speed_of_def truthy_def
        or_zero_def)

lemma hard_brake_baseline_x:
  "baseline rnd (\<lambda>r. or_zero (toSigned16 (accelerometerX r))) hard_brake_trip hard_brake_trip = 0"
  by (simp add: baseline_def hard_brake_trip_def accel_rec_simps toSigned16_def or_zero_def Let_def)

lemma hard_brake_xFiltered:
  "medianFilter (map (\<lambda>r. or_zero (toSigned16 (accelerometerX r)) - 0) hard_brake_trip) =
     [0, 0, 0, 0, - 400, - 400, - 400, 0]"
  by (simp add: medianFilter_def hard_brake_trip_def accel_rec_simps toSigned16_def or_zero_def)

lemma hard_brake_yFiltered:
  "medianFilter (map (\<lambda>r. or_zero (toSigned16 (accelerometerY r)) - 0) hard_brake_trip) =
     [0, 0, 0, 0, 0, 0, 0, 0]"
  by (simp add: medianFilter_def hard_brake_trip_def accel_rec_simps toSigned16_def or_zero_def)

lemma hard_brake_events:
  "foldl (event_step rnd hard_brake_trip [0, 0, 0, 0, - 400, - 400, - 400, 0]
            [0, 0, 0, 0, 0, 0, 0, 0]) ev_init hard_brake_trip =
   \<lparr>hardBraking = 1, hardAcceleration = 0, harshCornering = 0, idleSeconds = 0,
      ev_maxSpeed = 40, ev_maxRpm = 0, lastBrakeTime = Some 4000, lastAccelTime = None,
      lastCornerTime = None, prevRecord = Some (accel_rec 7000 0 40)\<rparr>"
  by (simp add: hard_brake_trip_def event_step_def ev_init_def accel_rec_simps or_zero_def
        cooled_down_def Let_def)

lemma hard_brake_result:
  "calculateDriverBehavior rnd hard_brake_trip =
   Some (behavior_result rnd hard_brake_trip hard_brake_trip
     \<lparr>hardBraking = 1, hardAcceleration = 0, harshCornering = 0, idleSeconds = 0,
      ev_maxSpeed = 40, ev_maxRpm = 0, lastBrakeTime = Some 4000, lastAccelTime = None,
      lastCornerTime = None, prevRecord = Some (accel_rec 7000 0 40)\<rparr> 0 0)"
proof -
  have f: "filter hasAccel hard_brake_trip = hard_brake_trip"
    by (simp add: hard_brake_trip_def accel_rec_simps)
  have l: "\<not> length hard_brake_trip < 5" by (simp add: hard_brake_trip_def)
  have by':
    "baseline rnd (\<lambda>r. or_zero (toSigned16 (accelerometerY r))) hard_brake_trip hard_brake_trip = 0"
    by (simp add: baseline_def hard_brake_trip_def accel_rec_simps toSigned16_def or_zero_def Let_def)
  show ?thesis
    unfolding calculateDriverBehavior_def Let_def f hard_brake_baseline_x by'
      hard_brake_xFiltered hard_brake_yFiltered hard_brake_events
    using l by simp
qed

lemma hard_brake_stage:
  "js_round (round_double (of_int (rec_timestamp (last hard_brake_trip)
                                   - rec_timestamp (hd hard_brake_trip)) / 60000)) = 0"
  "confidenceReasons_of round_double hard_brake_trip hard_brake_trip 0 =
     [''poor_gnss'', ''short_trip'', ''distance_estimated'']"
  "confidenceLevel_of [''poor_gnss'', ''short_trip'', ''distance_estimated''] = ''low''"
  "driverScore_step (Suc 0) 0 0 0 = 96"
  "efficiencyScore_step round_double 0 = 100"
  by (simp_all add: hard_brake_trip_def accel_rec_simps score_eval confidenceReasons_of_def
        confidenceLevel_of_def truthy_def fp_eval)

lemma hard_brake_fields:
  "driverScore (behavior_result round_double hard_brake_trip hard_brake_trip
     \<lparr>hardBraking = 1, hardAcceleration = 0, harshCornering = 0, idleSeconds = 0,
      ev_maxSpeed = 40, ev_maxRpm = 0, lastBrakeTime = Some 4000, lastAccelTime = None,
      lastCornerTime = None, prevRecord = Some (accel_rec 7000 0 40)\<rparr> 0 0) = 95"
  "confidence_level (behavior_result round_double hard_brake_trip hard_brake_trip
     \<lparr>hardBraking = 1, hardAcceleration = 0, harshCornering = 0, idleSeconds = 0,
      ev_maxSpeed = 40, ev_maxRpm = 0, lastBrakeTime = Some 4000, lastAccelTime = None,
      lastCornerTime = None, prevRecord = Some (accel_rec 7000 0 40)\<rparr> 0 0) = ''low''"
  "efficiencyScore (behavior_result round_double hard_brake_trip hard_brake_trip
     \<lparr>hardBraking = 1, hardAcceleration = 0, harshCornering = 0, idleSeconds = 0,
      ev_maxSpeed = 40, ev_maxRpm = 0, lastBrakeTime = Some 4000, lastAccelTime = None,
      lastCornerTime = None, prevRecord = Some (accel_rec 7000 0 40)\<rparr> 0 0) = 100"
  unfolding behavior_result_def Let_def hard_brake_stage(1) hard_brake_stage(2)
    hard_brake_stage(3)
  by (simp_all add: hard_brake_stage(4) hard_brake_stage(5))

section \<open>The invariant of the trip loop\<close>

lemma trip_loop_snoc:
  "trip_loop rnd s (rs @ [r]) =
     (case trip_loop rnd s rs of Inl e \<Rightarrow> Inl e | Inr s' \<Rightarrow> trip_step rnd s' r)"
  by (induction rs arbitrary: s) (auto split: sum.splits)

lemma loop_inv_init: "loop_inv [] loop_init"
  by (simp add: loop_inv_def loop_init_def)

lemma loop_inv_open:
  assumes "loop_inv rs s" and "currentTrip s = Some ct"
  shows "tripRecords s \<noteq> []"
    and "last (tripRecords s) = last (filter isEngineOn rs)"
    and "lastEngineOnTime s = Some (rec_timestamp (last (filter isEngineOn rs)))"
    and "\<forall>x \<in> set (tripRecords s). isEngineOn x"
proof -
  from assms obtain pre post where rs: "rs = pre @ post" and post: "post \<noteq> []"
    and on: "isEngineOn (hd post)"
    and tr: "tripRecords s = filter isEngineOn post"
    and lt: "lastEngineOnTime s = Some (rec_timestamp (last (filter isEngineOn post)))"
    by (auto simp: loop_inv_def)
  from post on have ne: "filter isEngineOn post \<noteq> []"
    by (cases post) auto
  with tr show "tripRecords s \<noteq> []" by simp
  from ne have l: "last (filter isEngineOn rs) = last (filter isEngineOn post)"
    by (simp add: rs)
  with tr show "last (tripRecords s) = last (filter isEngineOn rs)" by simp
  from lt l show "lastEngineOnTime s = Some (rec_timestamp (last (filter isEngineOn rs)))" by simp
  from tr show "\<forall>x \<in> set (tripRecords s). isEngineOn x" by simp
qed

lemma loop_inv_SomeI:
  assumes "currentTrip s = Some ct" and "rs = pre @ post" and "post \<noteq> []"
    and "isEngineOn (hd post)"
    and "ct = (rec_timestamp (hd post), totalOdometer (hd post))"
    and "tripRecords s = filter isEngineOn post"
    and "lastEngineOnTime s = Some (rec_timestamp (last (filter isEngineOn post)))"
  shows "loop_inv rs s"
  using assms by (auto simp: loop_inv_def)

lemma loop_inv_step:
  assumes inv: "loop_inv rs s"
  shows "\<exists>s'. trip_step rnd s r = Inr s' \<and> loop_inv (rs @ [r]) s'"
proof (cases "currentTrip s")
  case None
  show ?thesis
  proof (cases "isEngineOn r")
    case True
    have "loop_inv (rs @ [r])
        (s\<lparr>currentTrip := Some (rec_timestamp r, totalOdometer r), tripRecords := [r],
           lastEngineOnTime := Some (rec_timestamp r)\<rparr>)"
      using True by (intro loop_inv_SomeI [where pre = rs and post = "[r]"]) simp_all
    with None True show ?thesis by (simp add: trip_step_def)
  next
    case False
    with None inv show ?thesis by (simp add: trip_step_def loop_inv_def)
  qed
next
  case (Some ct)
  from inv Some obtain pre post where rs: "rs = pre @ post" and post: "post \<noteq> []"
    and on: "isEngineOn (hd post)"
    and ct: "ct = (rec_timestamp (hd post), totalOdometer (hd post))"
    and tr: "tripRecords s = filter isEngineOn post"
    and lt: "lastEngineOnTime s = Some (rec_timestamp (last (filter isEngineOn post)))"
    by (auto simp: loop_inv_def)
  from loop_inv_open(1) [OF inv Some] have ne: "tripRecords s \<noteq> []" .
  show ?thesis
  proof (cases "isEngineOn r")
    case True
    have "loop_inv (rs @ [r])
        (s\<lparr>tripRecords := tripRecords s @ [r], lastEngineOnTime := Some (rec_timestamp r)\<rparr>)"
      using True Some rs post on ct tr
      by (intro loop_inv_SomeI [where pre = pre and post = "post @ [r]"]) simp_all
    with Some True show ?thesis by (simp add: trip_step_def)
  next
    case False
    show ?thesis
    proof (cases "rec_timestamp r - or_zero (lastEngineOnTime s) > 60000")
      case True
      with Some False ne show ?thesis
        by (simp add: trip_step_def Let_def loop_inv_def)
    next
      case stay: False
      have "loop_inv (rs @ [r]) s"
        using False Some rs post on ct tr lt
        by (intro loop_inv_SomeI [where pre = pre and post = "post @ [r]"]) simp_all
      with Some False stay show ?thesis by (simp add: trip_step_def Let_def)
    qed
  qed
qed

lemma trip_loop_inv: "\<exists>s. trip_loop rnd loop_init rs = Inr s \<and> loop_inv rs s"
proof (induction rs rule: rev_induct)
  case Nil
  show ?case by (simp add: loop_inv_init)
next
  case (snoc r rs)
  then obtain s where s: "trip_loop rnd loop_init rs = Inr s" "loop_inv rs s" by blast
  from loop_inv_step [OF s(2), of rnd r] s(1) show ?case
    by (simp add: trip_loop_snoc)
qed

lemma trip_loop_reach: "trip_loop rnd loop_init rs = Inr s \<Longrightarrow> loop_inv rs s"
  using trip_loop_inv [of rnd rs] by auto

lemma get_trips_from_loop:
  assumes "get_trips rnd rs limit = Inr ts"
  shows "\<exists>s. trip_loop rnd loop_init rs = Inr s \<and> set ts \<subseteq> set (trips s)"
proof -
  from assms obtain s where s: "trip_loop rnd loop_init rs = Inr s"
    and ts: "ts = take limit (sort_key (\<lambda>t. - startTime t) (trips s))"
    by (auto simp: get_trips_def split: sum.splits)
  have "set ts \<subseteq> set (sort_key (\<lambda>t. - startTime t) (trips s))"
    unfolding ts by (rule set_take_subset)
  with s show ?thesis by auto
qed

lemma example_rec_simps:
  "isEngineOn (engine_on_at t odo)"
  "\<not> isEngineOn (engine_off_at t odo)"
  "rec_timestamp (engine_on_at t odo) = t"
  "rec_timestamp (engine_off_at t odo) = t"
  "totalOdometer (engine_on_at t odo) = Some odo"
  "totalOdometer (engine_off_at t odo) = Some odo"
  "speed_of (engine_on_at t odo) = 0"
  "fuelUsedGps (engine_on_at t odo) = None"
  "rec_gps (engine_on_at t odo) = None"
  "\<not> has_satellites (engine_on_at t odo)"
  "isEngineOn (moving_at t spd)"
  "rec_timestamp (moving_at t spd) = t"
  "totalOdometer (moving_at t spd) = None"
  "speed_of (moving_at t 90) = 90"
  "fuelUsedGps (moving_at t spd) = None"
  "rec_gps (moving_at t spd) = None"
  "\<not> has_satellites (moving_at t spd)"
  by (simp_all add: engine_on_at_def engine_off_at_def moving_at_def isEngineOn_def truthy_def
        speed_of_def has_satellites_def or_zero_def)

lemmas trip_eval = trip_step_def loop_init_def or_zero_def truthy_def example_rec_simps

text \<open>
  The fields of a closed trip that the rule for emitting it reads, and its end. The
  distance is the difference of the odometer readings when both are present and differ;
  otherwise it is \<open>Math.round\<close> of the estimate when that is positive; otherwise it is
  what the odometer gave, 0 or nothing.
\<close>

lemma close_trip_fields:
  "startTime (close_trip rnd ct recs) = fst ct"
  "endTime (close_trip rnd ct recs) = rec_timestamp (last recs)"
  "endOdometer (close_trip rnd ct recs) = totalOdometer (last recs)"
  "durationMinutes (close_trip rnd ct recs) =
     js_round (rnd (of_int (rec_timestamp (last recs) - fst ct) / 60000))"
  "distanceMeters (close_trip rnd ct recs) =
     (if truthy (snd ct) \<and> truthy (totalOdometer (last recs)) \<and>
         or_zero (totalOdometer (last recs)) - or_zero (snd ct) \<noteq> 0
      then Some (or_zero (totalOdometer (last recs)) - or_zero (snd ct))
      else if estimate_distance rnd recs > 0 then Some (js_round (estimate_distance rnd recs))
      else if truthy (snd ct) \<and> truthy (totalOdometer (last recs)) then Some 0
      else None)"
  by (auto simp add: close_trip_def Let_def truthy_def)

lemmas close_eval = close_trip_fields js_round_def over_100_def fp_eval

text \<open>
  The estimate at work: 4.02 s at 90 km/h with no odometer reading. In doubles
  \<open>90 / 3.6\<close> is 25, \<open>4020 / 1000\<close> is the double below 4.02 and their product is the
  double \<open>100.49999999999999\<close>, so \<open>distanceMeters\<close> is 100; in exact arithmetic the
  product is 100.5 and the figure would be 101.
\<close>

lemma estimate_in_doubles:
  "estimate_distance round_double [moving_at 0 90, moving_at 4020 90] =
     7072058789855231 / 70368744177664"
  "estimate_distance (\<lambda>x. x) [moving_at 0 90, moving_at 4020 90] = 201 / 2"
  by (simp_all add: estimate_distance_def fp_eval trip_eval)

lemma distance_in_doubles:
  "distanceMeters (close_trip round_double (0, None) [moving_at 0 90, moving_at 4020 90]) =
     Some 100"
  "durationMinutes (close_trip round_double (0, None) [moving_at 0 90, moving_at 4020 90]) = 0"
  "distanceMeters (close_trip (\<lambda>x. x) (0, None) [moving_at 0 90, moving_at 4020 90]) =
     Some 101"
  by (simp_all add: close_trip_fields estimate_in_doubles trip_eval js_round_def
        floor_numeral_div fp_eval)

section \<open>Evaluation of the session handler\<close>

lemmas session_eval = on_data_def new_session_def getDevice_def upsertDevice_def saveRawData_def
  saveRecords_def buildRecordDoc_def getDeviceType_def extractVIN_def truthy_value_def
  or_null_def getCollectionName_def lower_char_def is_lower_alnum_def parseIMEI_def

section \<open>The claims\<close>

subsection \<open>C1: count agreement\<close>

text \<open>
  C1, as stated: every frame whose \<open>numberOfData1\<close> differs from its trailing
  \<open>numberOfData2\<close> yields a decode error. \<open>decode\<close> reads the second count into the
  result and compares it with nothing, so the claim fails: the frame below has counts 0
  and 1 and is returned as a packet.
\<close>

theorem decodeCodec8_count_mismatch_accepted:
  "decodeCodec8 [0, 0, 0, 0, 0, 0, 0, 3, 8, 0, 1, 0, 0, 0, 0] =
     Inr \<lparr>preamble = 0, dataFieldLength = 3, codecId = 8, numberOfData1 = 0,
          avlRecords = [], numberOfData2 = 1, crc = 0\<rparr>"
  by (simp add: reader_eval)

text \<open>
  C1, amended: \<open>decodeCodec8\<close> does not compare the two counts. Whenever a buffer decodes
  to a packet \<open>p\<close> with final offset \<open>k\<close>, the byte at \<open>k - 5\<close> is the trailing
  \<open>numberOfData2\<close>, and the buffer with any other byte \<open>x\<close> in that place decodes as
  well, to the same packet with \<open>numberOfData2 = x\<close>: a mismatch of the counts never
  causes a decode error.
\<close>

theorem decode_ignores_numberOfData2:
  assumes "decode b 0 = Inr (p, k)"
  shows "decodeCodec8 (b[k - 5 := x]) = Inr (p\<lparr>numberOfData2 := unat x\<rparr>)"
proof -
  from assms obtain h o1 where rec: "decode_records b 0 = Inr (h, o1)"
    and k: "k = o1 + 5" "k \<le> length b"
    and p: "p = mk_packet h (unat (b ! o1)) (be_value (slice b (o1 + 1) (o1 + 5)))"
    unfolding decode_Inr by blast
  let ?b = "b[o1 := x]"
  have "take o1 ?b = take o1 b" by simp
  with rec have "decode_records ?b 0 = Inr (h, o1)" by (rule decode_records_local)
  moreover have "?b ! o1 = x" using k by simp
  moreover have "slice ?b (o1 + 1) (o1 + 5) = slice b (o1 + 1) (o1 + 5)"
    by (simp add: slice_def)
  ultimately have "decode ?b 0 = Inr (mk_packet h (unat x) (be_value (slice b (o1 + 1) (o1 + 5))), k)"
    unfolding decode_Inr using k by auto
  then show ?thesis
    by (cases h) (simp add: decodeCodec8_def k p mk_packet_def)
qed

theorem decode_ignores_numberOfData2_witness:
  "decode frame_one_record 0 =
     Inr (\<lparr>preamble = 0, dataFieldLength = 35, codecId = 8, numberOfData1 = 1,
           avlRecords =
             [\<lparr>timestamp = 1704067200000, timestampRaw = ''1704067200000'', priority = 1,
               gps = \<lparr>longitude = 26, latitude = 44, altitude = 100, angle = 90,
                      satellites = 9, speed = 50\<rparr>,
               io = \<lparr>eventIoId = 239, totalCount = 1,
                     elements = [\<lparr>elem_id = 239, elem_size = 1, elem_value = NumVal 1,
                                  elem_raw = [1], elem_name = ''Ignition''\<rparr>]\<rparr>\<rparr>],
           numberOfData2 = 1, crc = 0\<rparr>, 47) \<and>
   (\<exists>p. decodeCodec8 (frame_one_record[47 - 5 := 7]) = Inr p \<and>
        numberOfData1 p = 1 \<and> numberOfData2 p = 7 \<and> length (avlRecords p) = 1)"
proof -
  have d: "decode frame_one_record 0 =
     Inr (\<lparr>preamble = 0, dataFieldLength = 35, codecId = 8, numberOfData1 = 1,
           avlRecords =
             [\<lparr>timestamp = 1704067200000, timestampRaw = ''1704067200000'', priority = 1,
               gps = \<lparr>longitude = 26, latitude = 44, altitude = 100, angle = 90,
                      satellites = 9, speed = 50\<rparr>,
               io = \<lparr>eventIoId = 239, totalCount = 1,
                     elements = [\<lparr>elem_id = 239, elem_size = 1, elem_value = NumVal 1,
                                  elem_raw = [1], elem_name = ''Ignition''\<rparr>]\<rparr>\<rparr>],
           numberOfData2 = 1, crc = 0\<rparr>, 47)"
    by (simp add: frame_one_record_def reader_eval string_eval)
  from decode_ignores_numberOfData2 [OF d, of 7] d show ?thesis by simp
qed

subsection \<open>C2: nothing persisted without a login\<close>

text \<open>
  C2: no record is persisted unless the session has completed a login for an approved
  IMEI. The handler breaks this: when the buffer is not a login frame it goes on to
  \<open>decodeCodec8\<close> and \<open>saveRecords\<close> without looking at \<open>deviceIMEI\<close>. A new
  connection whose first buffer is a decodable AVL frame has its record inserted into
  \<open>records_fmc003\<close> with \<open>imei: null\<close>.
\<close>

theorem record_persisted_without_login:
  "(case run_session \<lparr>connected = True, devices = [], raw_docs = [], record_docs = []\<rparr>
           new_session [frame_one_record] of
      (db, s) \<Rightarrow>
        (map (\<lambda>(c, d). (c, doc_imei d, timestamp (doc_record d))) (record_docs db),
         deviceIMEI s)) =
   ([(''records_fmc003'', None, 1704067200000)], None)"
  by (simp add: session_eval frame_one_record_def reader_eval string_eval Let_def)

subsection \<open>C3: the login decision\<close>

text \<open>
  C3: a login is accepted only if the stored device has \<open>approved\<close> equal to true. The
  handler rejects only when there is no device or \<open>approved === false\<close>: for a stored
  device without the field it replies \<open>01\<close>, sets \<open>deviceIMEI\<close> and leaves the
  connection open.
\<close>

theorem login_accepted_without_approved_field:
  "on_data
     \<lparr>connected = True,
      devices = [\<lparr>imei = Some ''864275079658715'', modemType = ''FMC003'', vin = None,
                  approved = None\<rparr>],
      raw_docs = [], record_docs = []\<rparr>
     new_session
     [0, 15, 56, 54, 52, 50, 55, 53, 48, 55, 57, 54, 53, 56, 55, 49, 53] =
   (\<lparr>connected = True,
      devices = [\<lparr>imei = Some ''864275079658715'', modemType = ''FMC003'', vin = None,
                  approved = None\<rparr>],
      raw_docs = [], record_docs = []\<rparr>,
    \<lparr>deviceIMEI = Some ''864275079658715'', deviceVIN = None, deviceType = None,
      destroyed = False\<rparr>,
    [[1]])"
  by (simp add: session_eval reader_eval string_eval)

subsection \<open>C4: the record set of a trip\<close>

text \<open>
  C4, as stated: once a trip is open every later record up to its close, engine-on or
  engine-off within the 60 seconds, is appended to the record set. The branch for an
  engine-off record appends nothing, so the claim fails: here the engine-off record at
  10 s lies between two engine-on records of the open trip and is not in
  \<open>tripRecords\<close>. No trip is closed in this run and nothing is rounded.
\<close>

theorem off_record_not_appended:
  "trip_loop round_double loop_init
     [engine_on_at 0 100000, engine_off_at 10000 100100, engine_on_at 20000 100200] =
   Inr \<lparr>trips = [], currentTrip = Some (0, Some 100000),
        tripRecords = [engine_on_at 0 100000, engine_on_at 20000 100200],
        lastEngineOnTime = Some 20000\<rparr>"
  by (simp add: trip_eval)

text \<open>
  C4, amended: while a trip is open its record set is exactly the engine-on records
  since the record that opened it. The next record is appended if it is an engine-on
  record; an engine-off record that leaves the trip open leaves the record set as it is.
\<close>

theorem tripRecords_engine_on_only:
  assumes "trip_loop rnd loop_init rs = Inr s" and "currentTrip s = Some ct"
  shows "(\<exists>pre post. rs = pre @ post \<and> post \<noteq> [] \<and> isEngineOn (hd post) \<and>
            ct = (rec_timestamp (hd post), totalOdometer (hd post)) \<and>
            tripRecords s = filter isEngineOn post) \<and>
         (\<exists>s'. trip_step rnd s r = Inr s' \<and>
            (isEngineOn r \<longrightarrow> currentTrip s' = Some ct \<and> tripRecords s' = tripRecords s @ [r]) \<and>
            (\<not> isEngineOn r \<and> currentTrip s' \<noteq> None \<longrightarrow> tripRecords s' = tripRecords s))"
proof -
  from assms(1) have inv: "loop_inv rs s" by (rule trip_loop_reach)
  with assms(2) have 1: "\<exists>pre post. rs = pre @ post \<and> post \<noteq> [] \<and> isEngineOn (hd post) \<and>
            ct = (rec_timestamp (hd post), totalOdometer (hd post)) \<and>
            tripRecords s = filter isEngineOn post"
    by (auto simp: loop_inv_def)
  from loop_inv_open(1) [OF inv assms(2)] have ne: "tripRecords s \<noteq> []" .
  have 2: "\<exists>s'. trip_step rnd s r = Inr s' \<and>
            (isEngineOn r \<longrightarrow> currentTrip s' = Some ct \<and> tripRecords s' = tripRecords s @ [r]) \<and>
            (\<not> isEngineOn r \<and> currentTrip s' \<noteq> None \<longrightarrow> tripRecords s' = tripRecords s)"
    using assms(2) ne by (simp add: trip_step_def Let_def)
  from 1 2 show ?thesis by blast
qed

theorem tripRecords_engine_on_only_witness:
  "trip_loop round_double loop_init
       [engine_off_at 0 5, engine_on_at 1000 7, engine_off_at 2000 8] =
     Inr \<lparr>trips = [], currentTrip = Some (1000, Some 7), tripRecords = [engine_on_at 1000 7],
          lastEngineOnTime = Some 1000\<rparr> \<and>
   trip_step round_double \<lparr>trips = [], currentTrip = Some (1000, Some 7), tripRecords = [engine_on_at 1000 7],
          lastEngineOnTime = Some 1000\<rparr> (engine_off_at 3000 9) =
     Inr \<lparr>trips = [], currentTrip = Some (1000, Some 7), tripRecords = [engine_on_at 1000 7],
          lastEngineOnTime = Some 1000\<rparr> \<and>
   trip_step round_double \<lparr>trips = [], currentTrip = Some (1000, Some 7),
          tripRecords = [engine_on_at 1000 7],
          lastEngineOnTime = Some 1000\<rparr> (engine_on_at 3000 9) =
     Inr \<lparr>trips = [], currentTrip = Some (1000, Some 7),
          tripRecords = [engine_on_at 1000 7, engine_on_at 3000 9],
          lastEngineOnTime = Some 3000\<rparr>"
proof -
  let ?s = "\<lparr>trips = [], currentTrip = Some (1000, Some 7), tripRecords = [engine_on_at 1000 7],
          lastEngineOnTime = Some 1000\<rparr>"
  have run: "trip_loop round_double loop_init
      [engine_off_at 0 5, engine_on_at 1000 7, engine_off_at 2000 8] = Inr ?s"
    by (simp add: trip_eval)
  have op: "currentTrip ?s = Some (1000, Some 7)" by simp
  from tripRecords_engine_on_only [OF run op, of "engine_off_at 3000 9"]
    tripRecords_engine_on_only [OF run op, of "engine_on_at 3000 9"] run
  show ?thesis by (simp add: trip_eval)
qed

subsection \<open>C5: closing and emitting a trip\<close>

text \<open>
  C5: after any records \<open>rs\<close>, the next record \<open>r\<close> closes the open trip exactly when
  it is an engine-off record more than 60000 ms after the last engine-on record; the
  closed trip takes \<open>endTime\<close> and \<open>endOdometer\<close> from that last engine-on record;
  it is added to the trips exactly when \<open>durationMinutes \<ge> 2\<close> or
  \<open>distanceMeters > 100\<close>, and otherwise the trips stay as they are. With no trip open,
  or while the trip stays open, no trip is added. The step never raises. The two
  figures of the rule are those the code computes: \<open>durationMinutes\<close> is
  \<open>Math.round\<close> of the rounded quotient of the milliseconds from \<open>startTime\<close> to
  \<open>endTime\<close> by 60000, and \<open>distanceMeters\<close> is the difference of the odometer readings
  when both are present and differ; otherwise \<open>Math.round\<close> of the estimate that the
  loop accumulates in doubles over the record set, when that is positive; otherwise 0
  or nothing, as the odometer gave. The rule holds whatever the rounding of the doubles
  is.
\<close>

theorem trip_close_rule:
  assumes "trip_loop rnd loop_init rs = Inr s"
  shows "\<exists>s'. trip_step rnd s r = Inr s' \<and>
     (case currentTrip s of
        None \<Rightarrow> trips s' = trips s
      | Some ct \<Rightarrow>
          (currentTrip s' = None \<longleftrightarrow>
             \<not> isEngineOn r \<and>
             rec_timestamp r - rec_timestamp (last (filter isEngineOn rs)) > 60000) \<and>
          (currentTrip s' \<noteq> None \<longrightarrow> trips s' = trips s) \<and>
          (currentTrip s' = None \<longrightarrow>
            (let t = close_trip rnd ct (tripRecords s) in
               endTime t = rec_timestamp (last (filter isEngineOn rs)) \<and>
               endOdometer t = totalOdometer (last (filter isEngineOn rs)) \<and>
               durationMinutes t = js_round (rnd (of_int (endTime t - startTime t) / 60000)) \<and>
               distanceMeters t =
                 (if truthy (startOdometer t) \<and> truthy (endOdometer t) \<and>
                     or_zero (endOdometer t) - or_zero (startOdometer t) \<noteq> 0
                  then Some (or_zero (endOdometer t) - or_zero (startOdometer t))
                  else if estimate_distance rnd (tripRecords s) > 0
                  then Some (js_round (estimate_distance rnd (tripRecords s)))
                  else if truthy (startOdometer t) \<and> truthy (endOdometer t) then Some 0
                  else None) \<and>
               trips s' =
                 (if durationMinutes t \<ge> 2 \<or> (\<exists>m. distanceMeters t = Some m \<and> m > 100)
                  then trips s @ [t] else trips s))))"
proof (cases "currentTrip s")
  case None
  then show ?thesis by (simp add: trip_step_def Let_def)
next
  case (Some ct)
  from assms have inv: "loop_inv rs s" by (rule trip_loop_reach)
  note open_facts = loop_inv_open [OF inv Some]
  let ?t = "close_trip rnd ct (tripRecords s)"
  have over: "over_100 d \<longleftrightarrow> (\<exists>m. d = Some m \<and> m > 100)" for d
    by (cases d) (simp_all add: over_100_def)
  have ends: "endTime ?t = rec_timestamp (last (filter isEngineOn rs))"
    "endOdometer ?t = totalOdometer (last (filter isEngineOn rs))"
    by (simp_all add: close_trip_fields open_facts(2))
  have dur: "durationMinutes ?t = js_round (rnd (of_int (endTime ?t - startTime ?t) / 60000))"
    by (simp add: close_trip_fields)
  have startOdo: "startOdometer ?t = snd ct"
    by (simp add: close_trip_def Let_def)
  have dist: "distanceMeters ?t =
      (if truthy (startOdometer ?t) \<and> truthy (endOdometer ?t) \<and>
          or_zero (endOdometer ?t) - or_zero (startOdometer ?t) \<noteq> 0
       then Some (or_zero (endOdometer ?t) - or_zero (startOdometer ?t))
       else if estimate_distance rnd (tripRecords s) > 0
       then Some (js_round (estimate_distance rnd (tripRecords s)))
       else if truthy (startOdometer ?t) \<and> truthy (endOdometer ?t) then Some 0
       else None)"
    unfolding startOdo close_trip_fields(3) by (rule close_trip_fields(5))
  have step: "trip_step rnd s r =
      (if isEngineOn r
       then Inr (s\<lparr>tripRecords := tripRecords s @ [r],
                   lastEngineOnTime := Some (rec_timestamp r)\<rparr>)
       else if rec_timestamp r - rec_timestamp (last (filter isEngineOn rs)) > 60000
       then Inr (s\<lparr>trips := (if durationMinutes ?t \<ge> 2 \<or> over_100 (distanceMeters ?t)
                                then trips s @ [?t] else trips s),
                     currentTrip := None, tripRecords := []\<rparr>)
       else Inr s)"
    using Some open_facts(1) open_facts(3)
    by (simp add: trip_step_def Let_def or_zero_def)
  show ?thesis
  proof (cases "\<not> isEngineOn r \<and>
      rec_timestamp r - rec_timestamp (last (filter isEngineOn rs)) > 60000")
    case True
    let ?s' = "s\<lparr>trips := (if durationMinutes ?t \<ge> 2 \<or> over_100 (distanceMeters ?t)
                           then trips s @ [?t] else trips s),
                currentTrip := None, tripRecords := []\<rparr>"
    from True step have "trip_step rnd s r = Inr ?s'" by simp
    moreover have "currentTrip ?s' = None" by simp
    moreover have "trips ?s' =
        (if durationMinutes ?t \<ge> 2 \<or> (\<exists>m. distanceMeters ?t = Some m \<and> m > 100)
         then trips s @ [?t] else trips s)"
      by (simp add: over)
    ultimately show ?thesis
      using Some True ends dur dist by (simp add: Let_def)
  next
    case False
    then have "\<exists>s'. trip_step rnd s r = Inr s' \<and> currentTrip s' = Some ct \<and>
        trips s' = trips s"
      using step Some by auto
    with Some False show ?thesis by auto
  qed
qed

theorem trip_close_rule_witness:
  "trip_loop round_double loop_init [engine_on_at 0 100000, engine_on_at 180000 105000] =
     Inr \<lparr>trips = [], currentTrip = Some (0, Some 100000),
          tripRecords = [engine_on_at 0 100000, engine_on_at 180000 105000],
          lastEngineOnTime = Some 180000\<rparr> \<and>
   (\<exists>s'. trip_step round_double \<lparr>trips = [], currentTrip = Some (0, Some 100000),
          tripRecords = [engine_on_at 0 100000, engine_on_at 180000 105000],
          lastEngineOnTime = Some 180000\<rparr> (engine_off_at 300000 105000) = Inr s' \<and>
      currentTrip s' = None \<and>
      map (\<lambda>t. (startTime t, endTime t, endOdometer t, durationMinutes t, distanceMeters t))
        (trips s') = [(0, 180000, Some 105000, 3, Some 5000)]) \<and>
   trip_loop round_double loop_init [moving_at 0 90, moving_at 4020 90] =
     Inr \<lparr>trips = [], currentTrip = Some (0, None),
          tripRecords = [moving_at 0 90, moving_at 4020 90],
          lastEngineOnTime = Some 4020\<rparr> \<and>
   (\<exists>s'. trip_step round_double \<lparr>trips = [], currentTrip = Some (0, None),
          tripRecords = [moving_at 0 90, moving_at 4020 90],
          lastEngineOnTime = Some 4020\<rparr> (engine_off_at 70000 0) = Inr s' \<and>
      currentTrip s' = None \<and> trips s' = [])"
proof -
  let ?rs = "[engine_on_at 0 100000, engine_on_at 180000 105000]"
  let ?s = "\<lparr>trips = [], currentTrip = Some (0, Some 100000), tripRecords = ?rs,
          lastEngineOnTime = Some 180000\<rparr>"
  have run: "trip_loop round_double loop_init ?rs = Inr ?s"
    by (simp add: trip_eval)
  have t: "durationMinutes (close_trip round_double (0, Some 100000) ?rs) = 3"
    "distanceMeters (close_trip round_double (0, Some 100000) ?rs) = Some 5000"
    "startTime (close_trip round_double (0, Some 100000) ?rs) = 0"
    by (simp_all add: close_eval trip_eval)
  from trip_close_rule [OF run, of "engine_off_at 300000 105000"]
  obtain s' where s': "trip_step round_double ?s (engine_off_at 300000 105000) = Inr s'"
    and c: "currentTrip s' = None"
    and tr: "trips s' = [close_trip round_double (0, Some 100000) ?rs]"
    and e: "endTime (close_trip round_double (0, Some 100000) ?rs) = 180000"
      "endOdometer (close_trip round_double (0, Some 100000) ?rs) = Some 105000"
    by (auto simp: Let_def t trip_eval)
  let ?rs2 = "[moving_at 0 90, moving_at 4020 90]"
  let ?s2 = "\<lparr>trips = [], currentTrip = Some (0, None), tripRecords = ?rs2,
          lastEngineOnTime = Some 4020\<rparr>"
  have run2: "trip_loop round_double loop_init ?rs2 = Inr ?s2"
    by (simp add: trip_eval)
  have t2: "durationMinutes (close_trip round_double (0, None) ?rs2) = 0"
    "distanceMeters (close_trip round_double (0, None) ?rs2) = Some 100"
    by (simp_all add: distance_in_doubles)
  from trip_close_rule [OF run2, of "engine_off_at 70000 0"]
  obtain s2' where s2': "trip_step round_double ?s2 (engine_off_at 70000 0) = Inr s2'"
    and c2: "currentTrip s2' = None"
    and tr2: "trips s2' = []"
    by (auto simp: Let_def t2 trip_eval)
  from run t s' c tr e run2 s2' c2 tr2 show ?thesis by simp
qed

subsection \<open>C6: the driver score\<close>



subsection \<open>C7: the range of the scores\<close>

text \<open>
  C7: whenever \<open>calculateDriverBehavior\<close> returns a result, its \<open>driverScore\<close> and
  its \<open>efficiencyScore\<close> lie between 0 and 100, and when the confidence level is
  \<open>low\<close> the \<open>driverScore\<close> is at most 95. This holds whatever the rounding of the
  doubles is.
\<close>

theorem calculateDriverBehavior_scores_in_range:
  assumes "calculateDriverBehavior rnd recs = Some res"
  shows "0 \<le> driverScore res \<and> driverScore res \<le> 100 \<and>
         0 \<le> efficiencyScore res \<and> efficiencyScore res \<le> 100 \<and>
         (confidence_level res = ''low'' \<longrightarrow> driverScore res \<le> 95)"
proof -
  let ?d = "driverScore_step (events_hardBraking res) (events_hardAcceleration res)
              (events_harshCornering res) (analysis_tripDurationMinutes res)"
  from calculateDriverBehavior_Some [OF assms] obtain idle where
    d: "driverScore res = (if confidence_level res = ''low'' \<and> ?d > 95 then 95 else ?d)"
    and e: "efficiencyScore res = efficiencyScore_step rnd idle" by blast
  have r: "0 \<le> ?d \<and> ?d \<le> 100" by (rule driverScore_step_range)
  from d r have "0 \<le> driverScore res \<and> driverScore res \<le> 100"
    by (simp split: if_splits)
  moreover from e efficiencyScore_step_range [of rnd idle]
  have "0 \<le> efficiencyScore res \<and> efficiencyScore res \<le> 100" by simp
  moreover from d have "confidence_level res = ''low'' \<longrightarrow> driverScore res \<le> 95"
    by (simp split: if_splits)
  ultimately show ?thesis by blast
qed

theorem calculateDriverBehavior_scores_in_range_witness:
  "\<exists>res. calculateDriverBehavior round_double hard_brake_trip = Some res \<and>
     confidence_level res = ''low'' \<and> driverScore res = 95 \<and> efficiencyScore res = 100 \<and>
     0 \<le> driverScore res \<and> driverScore res \<le> 100 \<and>
     0 \<le> efficiencyScore res \<and> efficiencyScore res \<le> 100"
  using calculateDriverBehavior_scores_in_range [OF hard_brake_result [of round_double]]
    hard_brake_result [of round_double] hard_brake_fields
  by simp

subsection \<open>C8: bounded reads\<close>

text \<open>
  C8: for every buffer that is a proper prefix of a whole frame, \<open>decodeCodec8\<close> returns
  a decode error, and that error is never the out-of-range error of one of Node's
  primitive reads: the bounds check of the reader has refused the read before any byte at
  or beyond the length of the buffer is accessed.
\<close>

theorem decodeCodec8_prefix_error:
  assumes "whole_frame f" and "n < length f"
  shows "\<exists>e. decodeCodec8 (take n f) = Inl e \<and> e \<noteq> ERR_OUT_OF_RANGE"
proof -
  from decode_prefix_fails [OF assms] obtain e where "decodeCodec8 (take n f) = Inl e"
    by (cases "decode (take n f) 0") (auto simp: decodeCodec8_def)
  with decodeCodec8_in_bounds [of "take n f"] show ?thesis by auto
qed

theorem decodeCodec8_prefix_error_witness:
  "whole_frame frame_one_record \<and> 20 < length frame_one_record \<and>
   decodeCodec8 (take 20 frame_one_record) = Inl (BufferOverflow 19)"
proof -
  have w: "whole_frame frame_one_record"
    by (simp add: whole_frame_def frame_one_record_def reader_eval)
  have n: "20 < length frame_one_record"
    by (simp add: frame_one_record_def)
  have "decodeCodec8 (take 20 frame_one_record) = Inl (BufferOverflow 19)"
    by (simp add: frame_one_record_def reader_eval)
  with decodeCodec8_prefix_error [OF w n] w n show ?thesis by simp
qed

subsection \<open>C9: the CRC field\<close>

text \<open>
  C9: for two buffers of the same length that agree everywhere but in their last four
  bytes, \<open>decodeCodec8\<close> fails on both or succeeds on both, and when it succeeds the two
  packets have the same \<open>avlRecords\<close> and differ in the \<open>crc\<close> field at most. The CRC
  is read into the result: the \<open>crc\<close> of a packet that \<open>decodeCodec8\<close> returns is the
  big-endian value of the four bytes that end at the final offset \<open>k\<close> of \<open>decode\<close>,
  which lie inside the buffer. It is compared with nothing, since any other four bytes in
  their place give the same packet with their value as \<open>crc\<close>.
\<close>

theorem decodeCodec8_crc_independent:
  assumes "length b1 = length b2"
    and "take (length b1 - 4) b1 = take (length b2 - 4) b2"
  shows "(isl (decodeCodec8 b1) \<longleftrightarrow> isl (decodeCodec8 b2)) \<and>
         (\<forall>p1 p2. decodeCodec8 b1 = Inr p1 \<and> decodeCodec8 b2 = Inr p2 \<longrightarrow>
            avlRecords p1 = avlRecords p2 \<and> p2 = p1\<lparr>crc := crc p2\<rparr>) \<and>
         (\<forall>b p. decodeCodec8 b = Inr p \<longrightarrow>
            (\<exists>k. decode b 0 = Inr (p, k) \<and> 4 \<le> k \<and> k \<le> length b \<and>
                 crc p = be_value (slice b (k - 4) k)))"
proof -
  have fwd: "\<exists>p2. decodeCodec8 b' = Inr p2 \<and> p2 = p\<lparr>crc := crc p2\<rparr>"
    if "length b = length b'" "take (length b - 4) b = take (length b' - 4) b'"
      "decodeCodec8 b = Inr p" for b b' p
    using that decode_crc_transfer [of b b' p] unfolding decodeCodec8_Inr by blast
  have "isl (decodeCodec8 b1) \<longleftrightarrow> isl (decodeCodec8 b2)"
  proof (cases "decodeCodec8 b1")
    case (Inr p)
    with fwd [of b1 b2 p] assms show ?thesis by auto
  next
    case (Inl e)
    show ?thesis
    proof (cases "decodeCodec8 b2")
      case (Inr p)
      with fwd [of b2 b1 p] assms Inl show ?thesis by auto
    next
      case Inl': (Inl e')
      with Inl show ?thesis by simp
    qed
  qed
  moreover have "avlRecords p1 = avlRecords p2 \<and> p2 = p1\<lparr>crc := crc p2\<rparr>"
    if "decodeCodec8 b1 = Inr p1" "decodeCodec8 b2 = Inr p2" for p1 p2
  proof -
    from fwd [of b1 b2 p1] assms that have e: "p2 = p1\<lparr>crc := crc p2\<rparr>" by auto
    have "avlRecords (p1\<lparr>crc := c\<rparr>) = avlRecords p1" for c by simp
    with e show ?thesis by metis
  qed
  moreover have "\<exists>k. decode b 0 = Inr (p, k) \<and> 4 \<le> k \<and> k \<le> length b \<and>
                 crc p = be_value (slice b (k - 4) k)"
    if "decodeCodec8 b = Inr p" for b p
  proof -
    from that obtain k where k: "decode b 0 = Inr (p, k)"
      unfolding decodeCodec8_Inr by blast
    with decode_crc_value [OF k] show ?thesis by blast
  qed
  ultimately show ?thesis by blast
qed

theorem decodeCodec8_crc_independent_witness:
  "length frame_one_record = length (take 43 frame_one_record @ [222, 173, 190, 239]) \<and>
   take (length frame_one_record - 4) frame_one_record =
     take (length (take 43 frame_one_record @ [222, 173, 190, 239]) - 4)
       (take 43 frame_one_record @ [222, 173, 190, 239]) \<and>
   \<not> isl (decodeCodec8 frame_one_record) \<and>
   \<not> isl (decodeCodec8 (take 43 frame_one_record @ [222, 173, 190, 239])) \<and>
   avlRecords (projr (decodeCodec8 frame_one_record)) =
     avlRecords (projr (decodeCodec8 (take 43 frame_one_record @ [222, 173, 190, 239]))) \<and>
   crc (projr (decodeCodec8 frame_one_record)) = 0 \<and>
   crc (projr (decodeCodec8 (take 43 frame_one_record @ [222, 173, 190, 239]))) = 3735928559"
proof -
  let ?b2 = "take 43 frame_one_record @ [222, 173, 190, 239]"
  have l: "length frame_one_record = length ?b2"
    by (simp add: frame_one_record_def)
  have t: "take (length frame_one_record - 4) frame_one_record = take (length ?b2 - 4) ?b2"
    by (simp add: frame_one_record_def)
  have ok: "\<not> isl (decodeCodec8 frame_one_record)"
    by (simp add: frame_one_record_def reader_eval)
  note both = decodeCodec8_crc_independent [OF l t]
  from both ok have ok2: "\<not> isl (decodeCodec8 ?b2)" by simp
  from ok ok2 obtain p1 p2 where
    p: "decodeCodec8 frame_one_record = Inr p1" "decodeCodec8 ?b2 = Inr p2"
    by (metis sum.collapse(2))
  with both have recs: "avlRecords p1 = avlRecords p2" by blast
  from both p(1) obtain k1 where k1: "decode frame_one_record 0 = Inr (p1, k1)"
    and c1: "crc p1 = be_value (slice frame_one_record (k1 - 4) k1)" by blast
  from both p(2) obtain k2 where k2: "decode ?b2 0 = Inr (p2, k2)"
    and c2: "crc p2 = be_value (slice ?b2 (k2 - 4) k2)" by blast
  have "snd (projr (decode frame_one_record 0)) = 47"
    by (simp add: frame_one_record_def reader_eval)
  with k1 have "k1 = 47" by simp
  with c1 have crc1: "crc p1 = 0"
    by (simp add: frame_one_record_def be_value_def slice_def)
  have "snd (projr (decode ?b2 0)) = 47"
    by (simp add: frame_one_record_def reader_eval)
  with k2 have "k2 = 47" by simp
  with c2 have crc2: "crc p2 = 3735928559"
    by (simp add: frame_one_record_def be_value_def slice_def)
  from l t ok ok2 p recs crc1 crc2 show ?thesis by simp
qed

subsection \<open>C10: the login frame\<close>

text \<open>
  C10: \<open>parseIMEI\<close> never raises; it returns a string exactly when the buffer has at
  least 17 bytes and its first two bytes, read as a big-endian 16-bit integer, equal 15,
  and then the string is the ASCII decoding (highest bit cleared) of the bytes 2 to 16,
  whatever they are: the payload is not checked for decimal digits.
\<close>

theorem parseIMEI_result:
  "parseIMEI b =
     (if 17 \<le> length b \<and> unat (b ! 0) * 256 + unat (b ! 1) = 15
      then Inr (Some (map (\<lambda>i. char_of (unat (b ! i) mod 128)) [2..<17]))
      else Inr None)"
proof (cases "length b < 2")
  case True
  then show ?thesis by (simp add: parseIMEI_def)
next
  case False
  then obtain x y r where b: "b = x # y # r"
    by (cases b; cases "tl b") auto
  have len: "buf_readUInt16BE b 0 = Inr (unat (b ! 0) * 256 + unat (b ! 1))"
    by (simp add: b buf_readUInt16BE_def buf_readUIntBE_def be_value_def slice_def)
  have asc: "to_ascii (slice b 2 17) = map (\<lambda>i. char_of (unat (b ! i) mod 128)) [2..<17]"
    if "17 \<le> length b"
  proof (rule nth_equalityI)
    show "length (to_ascii (slice b 2 17)) =
        length (map (\<lambda>i. char_of (unat (b ! i) mod 128) :: char) [2..<17])"
      using that by (simp add: to_ascii_def slice_def)
  next
    fix i assume "i < length (to_ascii (slice b 2 17))"
    with that have i: "i < 15" by (simp add: to_ascii_def slice_def)
    with that show "to_ascii (slice b 2 17) ! i =
        map (\<lambda>i. char_of (unat (b ! i) mod 128)) [2..<17] ! i"
      by (simp add: to_ascii_def slice_def add.commute del: upt_rec_numeral)
  qed
  show ?thesis
  proof (cases "17 \<le> length b")
    case True
    with asc len show ?thesis by (simp add: parseIMEI_def del: upt_rec_numeral)
  next
    case short: False
    with False len show ?thesis by (simp add: parseIMEI_def)
  qed
qed

theorem parseIMEI_accepts_non_digits:
  "parseIMEI [0, 15, 33, 33, 33, 33, 33, 33, 33, 33, 33, 33, 33, 33, 33, 33, 33] =
     Inr (Some ''!!!!!!!!!!!!!!!'')"
  using parseIMEI_result [of "[0, 15, 33, 33, 33, 33, 33, 33, 33, 33, 33, 33, 33, 33, 33, 33, 33]"]
  by (simp add: char_of_def bit_Suc_0_iff)

end
